theory Spec2Isabelle
  imports Complex_Main "HOL-Library.Word" "HOL-Library.Monad_Syntax"
begin

section \<open>JavaScript values used by ImageUploader.jsx\<close>

text \<open>
  A JavaScript string is a sequence of UTF-16 code units. The regular expressions of
  \<^verbatim>\<open>getOutputKey\<close> carry no flag, so they work on code units: \<^verbatim>\<open>\d\<close> is one of the ten
  ASCII digits and \<^verbatim>\<open>.\<close> is any code unit that is not a line terminator
  (U+000A, U+000D, U+2028, U+2029).
\<close>

type_synonym code_unit = "16 word"
type_synonym js_string = "code_unit list"

definition js :: "string \<Rightarrow> js_string" where
  "js s = map of_char s"

definition isDigit :: "code_unit \<Rightarrow> bool" where
  "isDigit c \<longleftrightarrow> 0x30 \<le> c \<and> c \<le> 0x39"

definition isLineTerminator :: "code_unit \<Rightarrow> bool" where
  "isLineTerminator c \<longleftrightarrow> c = 0x0A \<or> c = 0x0D \<or> c = 0x2028 \<or> c = 0x2029"

definition dot :: code_unit where
  "dot = 0x2E"

text \<open>
  \<^verbatim>\<open>s.lastIndexOf(".")\<close>: the index of the last occurrence, or -1.
\<close>

definition lastIndexOf :: "js_string \<Rightarrow> code_unit \<Rightarrow> int" where
  "lastIndexOf s c =
     (if c \<in> set s
      then int (length s) - 1 - int (length (takeWhile (\<lambda>x. x \<noteq> c) (rev s)))
      else - 1)"

text \<open>
  \<^verbatim>\<open>s.substring(start, end)\<close>: both indices are clamped into \<open>[0, length]\<close> and swapped
  when the first is the larger one.
\<close>

definition substring :: "js_string \<Rightarrow> int \<Rightarrow> int \<Rightarrow> js_string" where
  "substring s start end =
     (let n = int (length s);
          a = max 0 (min start n);
          b = max 0 (min end n);
          lo = min a b;
          hi = max a b
      in take (nat (hi - lo)) (drop (nat lo) s))"

text \<open>\<^verbatim>\<open>a || b\<close> on strings: the empty string is the only falsy string.\<close>

definition js_or :: "js_string \<Rightarrow> js_string \<Rightarrow> js_string" where
  "js_or a b = (if a \<noteq> [] then a else b)"

text \<open>
  \<^verbatim>\<open>toLowerCase\<close> on the ASCII range. The source applies it to the constant
  \<^verbatim>\<open>outputFormat\<close> only, which is ASCII.
\<close>

definition toLowerCase :: "js_string \<Rightarrow> js_string" where
  "toLowerCase s = map (\<lambda>c. if 0x41 \<le> c \<and> c \<le> 0x5A then c + 0x20 else c) s"

subsection \<open>The pieces of the two regular expressions\<close>

text \<open>
  Both patterns are anchored at the start of the input, and every \<^verbatim>\<open>\d+\<close> in them is
  followed by a literal that is not a digit. Giving back digits can therefore never
  make a failed match succeed, and the backtracking matcher of JavaScript finds a match
  exactly when the longest run of digits is taken each time. The final \<^verbatim>\<open>(.*)\<close> is
  greedy and nothing follows it: it takes every code unit up to the first line
  terminator.
\<close>

definition lit :: "js_string \<Rightarrow> js_string \<Rightarrow> js_string option" where
  "lit p s = (if take (length p) s = p then Some (drop (length p) s) else None)"

definition digits1 :: "js_string \<Rightarrow> (js_string \<times> js_string) option" where
  "digits1 s =
     (let d = takeWhile isDigit s
      in if d = [] then None else Some (d, dropWhile isDigit s))"

definition dotStar :: "js_string \<Rightarrow> js_string" where
  "dotStar s = takeWhile (\<lambda>c. \<not> isLineTerminator c) s"

text \<open>
  \<^verbatim>\<open>baseKey.match(/^(q\d+_w\d+_h\d+)\/(.*)/)\<close>: \<open>None\<close> is \<^verbatim>\<open>null\<close>, otherwise the two
  capture groups.
\<close>

definition match_new :: "js_string \<Rightarrow> (js_string \<times> js_string) option" where
  "match_new baseKey = do {
     r0 \<leftarrow> lit (js ''q'') baseKey;
     (d1, r1) \<leftarrow> digits1 r0;
     r2 \<leftarrow> lit (js ''_w'') r1;
     (d2, r3) \<leftarrow> digits1 r2;
     r4 \<leftarrow> lit (js ''_h'') r3;
     (d3, r5) \<leftarrow> digits1 r4;
     r6 \<leftarrow> lit (js ''/'') r5;
     Some (js ''q'' @ d1 @ js ''_w'' @ d2 @ js ''_h'' @ d3, dotStar r6)
   }"

text \<open>\<^verbatim>\<open>baseKey.match(/^(quality\d+)\/(.*)/)\<close>.\<close>

definition match_old :: "js_string \<Rightarrow> (js_string \<times> js_string) option" where
  "match_old baseKey = do {
     r0 \<leftarrow> lit (js ''quality'') baseKey;
     (d, r1) \<leftarrow> digits1 r0;
     r2 \<leftarrow> lit (js ''/'') r1;
     Some (js ''quality'' @ d, dotStar r2)
   }"

section \<open>getOutputKey\<close>

definition outputFormat :: js_string where
  "outputFormat = js ''jpeg''"

text \<open>
  The expression
  \<^verbatim>\<open>filenamePart.substring(0, filenamePart.lastIndexOf(".")) || filenamePart\<close>,
  which the source writes out in both branches of \<^verbatim>\<open>getOutputKey\<close>.
\<close>

definition baseNameOf :: "js_string \<Rightarrow> js_string" where
  "baseNameOf filenamePart =
     js_or (substring filenamePart 0 (lastIndexOf filenamePart dot)) filenamePart"

text \<open>
  The function returns a string on every path. On the last path the source calls
  \<^verbatim>\<open>console.error\<close> and returns the fallback \<^verbatim>\<open>resized-unknown/<baseKey>\<close>; console
  output is not part of the model.
\<close>

definition getOutputKey :: "js_string \<Rightarrow> js_string" where
  "getOutputKey baseKey =
     (case match_new baseKey of
        Some (prefixPart, filenamePart) \<Rightarrow>
          (let baseName = baseNameOf filenamePart;
               extension = toLowerCase outputFormat
           in js ''resized-'' @ prefixPart @ js ''/'' @ baseName @ js ''.'' @ extension)
      | None \<Rightarrow>
          (case match_old baseKey of
             Some (oldPrefix, filenamePart) \<Rightarrow>
               (let baseName = baseNameOf filenamePart;
                    extension = toLowerCase outputFormat
                in js ''resized-'' @ oldPrefix @ js ''/'' @ baseName @ js ''.'' @ extension)
           | None \<Rightarrow> js ''resized-unknown/'' @ baseKey))"

subsection \<open>The two key shapes, as sets of strings\<close>

definition digits :: "js_string \<Rightarrow> bool" where
  "digits d \<longleftrightarrow> d \<noteq> [] \<and> (\<forall>c \<in> set d. isDigit c)"

definition is_new_prefix :: "js_string \<Rightarrow> bool" where
  "is_new_prefix p \<longleftrightarrow>
     (\<exists>d1 d2 d3. digits d1 \<and> digits d2 \<and> digits d3 \<and>
        p = js ''q'' @ d1 @ js ''_w'' @ d2 @ js ''_h'' @ d3)"

definition is_legacy_prefix :: "js_string \<Rightarrow> bool" where
  "is_legacy_prefix p \<longleftrightarrow> (\<exists>d. digits d \<and> p = js ''quality'' @ d)"

definition new_shape :: "js_string \<Rightarrow> bool" where
  "new_shape k \<longleftrightarrow> (\<exists>p name. is_new_prefix p \<and> k = p @ js ''/'' @ name)"

definition legacy_shape :: "js_string \<Rightarrow> bool" where
  "legacy_shape k \<longleftrightarrow> (\<exists>p name. is_legacy_prefix p \<and> k = p @ js ''/'' @ name)"

section \<open>JavaScript numbers\<close>

text \<open>
  A JavaScript number is NaN, an infinity or a finite value; every finite double is a
  rational. The sign of zero plays no role here, because every value passes through
  \<^verbatim>\<open>Math.max(1, _)\<close> first.
\<close>

datatype js_number = NaN | NegInfinity | Finite rat | PosInfinity

fun Math_max :: "js_number \<Rightarrow> js_number \<Rightarrow> js_number" where
  "Math_max NaN y = NaN"
| "Math_max x NaN = NaN"
| "Math_max PosInfinity y = PosInfinity"
| "Math_max x PosInfinity = PosInfinity"
| "Math_max NegInfinity y = y"
| "Math_max x NegInfinity = x"
| "Math_max (Finite a) (Finite b) = Finite (max a b)"

fun Math_min :: "js_number \<Rightarrow> js_number \<Rightarrow> js_number" where
  "Math_min NaN y = NaN"
| "Math_min x NaN = NaN"
| "Math_min NegInfinity y = NegInfinity"
| "Math_min x NegInfinity = NegInfinity"
| "Math_min PosInfinity y = y"
| "Math_min x PosInfinity = x"
| "Math_min (Finite a) (Finite b) = Finite (min a b)"

definition isNaN :: "js_number \<Rightarrow> bool" where
  "isNaN n \<longleftrightarrow> n = NaN"

section \<open>The component state\<close>

record js_file =
  file_name :: js_string
  file_type :: js_string

text \<open>
  The network requests that the component issues. The query of the first one is kept
  as its five parameters; \<^verbatim>\<open>API_BASE_URL\<close> and the URL encoding are left out.
\<close>

datatype request =
    GetUploadUrl js_string js_number js_number js_number js_string
  | PutObject js_string js_file js_string
  | Head js_string
  | GetImage js_string

text \<open>What a \<^verbatim>\<open>fetch\<close> settles with: a response with its status, or a rejection.\<close>

datatype response = Response nat | NetworkError

definition ok :: "nat \<Rightarrow> bool" where
  "ok status \<longleftrightarrow> 200 \<le> status \<and> status \<le> 299"

text \<open>
  The nine \<^verbatim>\<open>useState\<close> cells and the two refs of the polling, followed by what the
  browser holds for the component: the interval timers that are set (handle and the
  \<^verbatim>\<open>publicUrl\<close> that the callback closed over), the next timer handle, the requests
  issued so far, and the \<^verbatim>\<open>HEAD\<close> probes whose \<^verbatim>\<open>await fetch\<close> has not settled yet
  (position of the request in \<open>requests\<close> and the \<^verbatim>\<open>publicUrl\<close> of the closure).
\<close>

record state =
  selectedFile :: "js_file option"
  uploadStatus :: js_string
  isLoading :: bool
  resizedImageUrl :: "js_string option"
  originalPreviewUrl :: "js_string option"
  lastUploadedKey :: "js_string option"
  quality :: js_number
  width :: js_number
  height :: js_number
  pollingIntervalRef :: "nat option"
  pollingAttemptsRef :: nat
  timers :: "(nat \<times> js_string) list"
  nextTimer :: nat
  requests :: "request list"
  inflight :: "(nat \<times> js_string) list"

definition outputBucketName :: js_string where
  "outputBucketName = js ''vyomuchat-image-resizer-output''"

definition region :: js_string where
  "region = js ''eu-north-1''"

definition maxPollingAttempts :: nat where
  "maxPollingAttempts = 15"

text \<open>
  The state after the first render. Timer handles of a browser are greater than zero,
  so a handle is always truthy.
\<close>

definition init :: state where
  "init = \<lparr> selectedFile = None, uploadStatus = [], isLoading = False,
            resizedImageUrl = None, originalPreviewUrl = None, lastUploadedKey = None,
            quality = Finite 85, width = Finite 128, height = Finite 128,
            pollingIntervalRef = None, pollingAttemptsRef = 0,
            timers = [], nextTimer = 1, requests = [], inflight = [] \<rparr>"

text \<open>A number in a template literal: \<^verbatim>\<open>Date.now()\<close> is a non-negative integer.\<close>

fun decimal :: "nat \<Rightarrow> js_string" where
  "decimal n =
     (if n < 10 then [of_nat (48 + n)]
      else decimal (n div 10) @ [of_nat (48 + n mod 10)])"

declare decimal.simps [simp del]

section \<open>The handlers\<close>

definition clearInterval :: "nat \<Rightarrow> (nat \<times> js_string) list \<Rightarrow> (nat \<times> js_string) list" where
  "clearInterval h ts = filter (\<lambda>t. fst t \<noteq> h) ts"

definition stopPolling :: "state \<Rightarrow> state" where
  "stopPolling s =
     (case pollingIntervalRef s of
        None \<Rightarrow> s
      | Some h \<Rightarrow>
          if h \<noteq> 0
          then s\<lparr> timers := clearInterval h (timers s),
                  pollingIntervalRef := None,
                  pollingAttemptsRef := 0 \<rparr>
          else s)"

text \<open>
  \<^verbatim>\<open>handleQualityChange\<close> and \<^verbatim>\<open>handleDimensionChange\<close> take the number that
  \<^verbatim>\<open>Number(_)\<close> makes of their argument.
\<close>

definition handleQualityChange :: "js_number \<Rightarrow> state \<Rightarrow> state" where
  "handleQualityChange newQuality s =
     (let numQuality = Math_max (Finite 1) (Math_min (Finite 100) newQuality)
      in s\<lparr> quality := (if isNaN numQuality then Finite 85 else numQuality) \<rparr>)"

definition handleDimensionChange :: "js_number \<Rightarrow> js_string \<Rightarrow> state \<Rightarrow> state" where
  "handleDimensionChange v type s =
     (let numValue = Math_max (Finite 1) v;
          finalValue = (if isNaN numValue \<or> numValue = Finite 0 then Finite 128 else numValue)
      in if type = js ''width'' then s\<lparr> width := finalValue \<rparr>
         else if type = js ''height'' then s\<lparr> height := finalValue \<rparr>
         else s)"

text \<open>
  \<^verbatim>\<open>incrementQuality\<close> and \<^verbatim>\<open>decrementQuality\<close> pass \<^verbatim>\<open>quality + 1\<close> and \<^verbatim>\<open>quality - 1\<close>
  on. The sum is computed in double arithmetic, which rounds; its value is taken as the
  argument here.
\<close>

definition incrementQuality :: "js_number \<Rightarrow> state \<Rightarrow> state" where
  "incrementQuality qualityPlus1 s = handleQualityChange qualityPlus1 s"

definition decrementQuality :: "js_number \<Rightarrow> state \<Rightarrow> state" where
  "decrementQuality qualityMinus1 s = handleQualityChange qualityMinus1 s"

text \<open>
  \<^verbatim>\<open>handleFileChange\<close>; the two callbacks of its \<^verbatim>\<open>FileReader\<close> follow.
\<close>

definition handleFileChange :: "js_file option \<Rightarrow> state \<Rightarrow> state" where
  "handleFileChange f s =
     (case f of
        Some file \<Rightarrow>
          (stopPolling
             (s\<lparr> selectedFile := Some file,
                  uploadStatus := js ''Selected: '' @ file_name file,
                  resizedImageUrl := None,
                  lastUploadedKey := None,
                  isLoading := False \<rparr>))
            \<lparr> originalPreviewUrl := None \<rparr>
      | None \<Rightarrow>
          s\<lparr> originalPreviewUrl := None, selectedFile := None, uploadStatus := [] \<rparr>)"

definition reader_onloadend :: "js_string option \<Rightarrow> state \<Rightarrow> state" where
  "reader_onloadend result s = s\<lparr> originalPreviewUrl := result \<rparr>"

definition reader_onerror :: "state \<Rightarrow> state" where
  "reader_onerror s = s\<lparr> uploadStatus := js ''Error generating preview.'' \<rparr>"

text \<open>
  \<^verbatim>\<open>handleUpload\<close> runs in three pieces, cut at its two \<^verbatim>\<open>await fetch\<close>: up to the
  request for the upload URL, from its answer to the \<^verbatim>\<open>PUT\<close>, and after the \<^verbatim>\<open>PUT\<close>.
  Every \<^verbatim>\<open>throw\<close> and every rejected promise ends in the \<^verbatim>\<open>catch\<close> block.
\<close>

definition handleUpload :: "state \<Rightarrow> state" where
  "handleUpload s =
     (case selectedFile s of
        None \<Rightarrow> s\<lparr> uploadStatus := js ''Please select a file first.'' \<rparr>
      | Some fileToUpload \<Rightarrow>
          (let s1 = stopPolling
                      (s\<lparr> isLoading := True,
                           resizedImageUrl := None,
                           uploadStatus := js ''Getting upload URL...'',
                           lastUploadedKey := None \<rparr>);
               contentType = js_or (file_type fileToUpload) (js ''application/octet-stream'')
           in s1\<lparr> requests := requests s1 @
                     [GetUploadUrl (file_name fileToUpload) (quality s) (width s) (height s)
                        contentType] \<rparr>))"

definition handleUpload_gotUrl :: "js_file \<Rightarrow> js_string \<Rightarrow> state \<Rightarrow> state" where
  "handleUpload_gotUrl fileToUpload uploadUrl s =
     (let contentType = js_or (file_type fileToUpload) (js ''application/octet-stream'')
      in s\<lparr> uploadStatus := js ''Uploading image...'',
             requests := requests s @ [PutObject uploadUrl fileToUpload contentType] \<rparr>)"

definition handleUpload_uploaded :: "js_string \<Rightarrow> state \<Rightarrow> state" where
  "handleUpload_uploaded key s =
     s\<lparr> uploadStatus := js ''Upload successful! Waiting for resized version...'',
         lastUploadedKey := Some key,
         selectedFile := None \<rparr>"

definition handleUpload_catch :: "js_string \<Rightarrow> state \<Rightarrow> state" where
  "handleUpload_catch message s =
     stopPolling
       (s\<lparr> uploadStatus := js ''Error: '' @ message,
            isLoading := False,
            lastUploadedKey := None \<rparr>)"

text \<open>The click handler of the button \<^verbatim>\<open>Resize Another Image\<close>.\<close>

definition resizeAnother :: "state \<Rightarrow> state" where
  "resizeAnother s =
     stopPolling
       (s\<lparr> resizedImageUrl := None,
            originalPreviewUrl := None,
            uploadStatus := [],
            lastUploadedKey := None,
            selectedFile := None,
            isLoading := False \<rparr>)"

text \<open>\<^verbatim>\<open>handleDownloadClick\<close>, cut at its \<^verbatim>\<open>await fetch\<close>.\<close>

definition handleDownloadClick :: "nat \<Rightarrow> state \<Rightarrow> state" where
  "handleDownloadClick now s =
     (case resizedImageUrl s of
        None \<Rightarrow> s
      | Some url \<Rightarrow>
          if url = [] then s
          else s\<lparr> uploadStatus := js ''Preparing download...'',
                  requests := requests s @ [GetImage (url @ js ''?t='' @ decimal now)] \<rparr>)"

definition handleDownload_settled :: "js_string option \<Rightarrow> state \<Rightarrow> state" where
  "handleDownload_settled err s =
     (case err of
        None \<Rightarrow> s\<lparr> uploadStatus := js ''Download started.'' \<rparr>
      | Some message \<Rightarrow> s\<lparr> uploadStatus := js ''Error preparing download: '' @ message \<rparr>)"

subsection \<open>The polling effect\<close>

text \<open>
  The body of the \<^verbatim>\<open>useEffect\<close>. \<^verbatim>\<open>setInterval\<close> hands out the next handle and
  registers the callback, which closes over \<^verbatim>\<open>publicUrl\<close>.
\<close>

definition pollingEffect :: "state \<Rightarrow> state" where
  "pollingEffect s =
     (let s1 = stopPolling s
      in case lastUploadedKey s1 of
           None \<Rightarrow> s1
         | Some key \<Rightarrow>
             if key = [] then s1
             else
               (let outputKey = getOutputKey key;
                    publicUrl = js ''https://'' @ outputBucketName @ js ''.s3.'' @ region
                                  @ js ''.amazonaws.com/'' @ outputKey;
                    s2 = s1\<lparr> pollingAttemptsRef := 0 \<rparr>
                in s2\<lparr> timers := timers s2 @ [(nextTimer s2, publicUrl)],
                        pollingIntervalRef := Some (nextTimer s2),
                        nextTimer := Suc (nextTimer s2) \<rparr>))"

text \<open>
  The callback of the interval, up to its \<^verbatim>\<open>await fetch\<close>: the counter goes up first,
  then either the poll gives up or one \<^verbatim>\<open>HEAD\<close> probe is sent.
\<close>

definition intervalCallback :: "js_string \<Rightarrow> nat \<Rightarrow> state \<Rightarrow> state" where
  "intervalCallback publicUrl now s =
     (let s1 = s\<lparr> pollingAttemptsRef := pollingAttemptsRef s + 1 \<rparr>
      in if pollingAttemptsRef s1 > maxPollingAttempts
         then stopPolling
                (s1\<lparr> uploadStatus := js ''Image processing timed out. Please try again.'',
                      isLoading := False \<rparr>)
         else s1\<lparr> requests := requests s1 @ [Head (publicUrl @ js ''?t='' @ decimal now)],
                   inflight := inflight s1 @ [(length (requests s1), publicUrl)] \<rparr>)"

text \<open>The rest of the callback, run when the probe has settled.\<close>

definition probeSettled :: "js_string \<Rightarrow> response \<Rightarrow> nat \<Rightarrow> state \<Rightarrow> state" where
  "probeSettled publicUrl r now s =
     (case r of
        Response status \<Rightarrow>
          if ok status
          then (stopPolling s)
                 \<lparr> resizedImageUrl := Some (publicUrl @ js ''?t='' @ decimal now),
                   uploadStatus := js ''Resized image loaded.'',
                   isLoading := False \<rparr>
          else if status = 403 \<or> status = 404 then s
          else s
      | NetworkError \<Rightarrow> s)"

section \<open>Events\<close>

text \<open>
  One event is one run of JavaScript to completion: a handler called by the user
  interface, a timer callback, or the continuation of an \<^verbatim>\<open>await\<close>. React renders
  after it and runs the polling effect again when \<^verbatim>\<open>lastUploadedKey\<close> has changed:
  first the cleanup of the previous effect, then the new body. A timer callback runs
  only for a timer that is set, and a probe settles only once.
\<close>

datatype event =
    FileChange "js_file option"
  | ReaderLoadEnd "js_string option"
  | ReaderError
  | QualityChange js_number
  | DimensionChange js_number js_string
  | IncrementQuality js_number
  | DecrementQuality js_number
  | UploadClick
  | UploadUrlReceived js_file js_string
  | UploadDone js_string
  | UploadFailed js_string
  | Tick nat nat
  | ProbeSettled nat response nat
  | ResizeAnotherClick
  | DownloadClick nat
  | DownloadSettled "js_string option"

definition rerender :: "state \<Rightarrow> state \<Rightarrow> state" where
  "rerender old new =
     (if lastUploadedKey new \<noteq> lastUploadedKey old
      then pollingEffect (stopPolling new)
      else new)"

fun handle :: "event \<Rightarrow> state \<Rightarrow> state" where
  "handle (FileChange f) s = handleFileChange f s"
| "handle (ReaderLoadEnd result) s = reader_onloadend result s"
| "handle ReaderError s = reader_onerror s"
| "handle (QualityChange n) s = handleQualityChange n s"
| "handle (DimensionChange n type) s = handleDimensionChange n type s"
| "handle (IncrementQuality n) s = incrementQuality n s"
| "handle (DecrementQuality n) s = decrementQuality n s"
| "handle UploadClick s = handleUpload s"
| "handle (UploadUrlReceived f uploadUrl) s = handleUpload_gotUrl f uploadUrl s"
| "handle (UploadDone key) s = handleUpload_uploaded key s"
| "handle (UploadFailed message) s = handleUpload_catch message s"
| "handle (Tick h now) s =
     (case map_of (timers s) h of
        None \<Rightarrow> s
      | Some publicUrl \<Rightarrow> intervalCallback publicUrl now s)"
| "handle (ProbeSettled i r now) s =
     (case map_of (inflight s) i of
        None \<Rightarrow> s
      | Some publicUrl \<Rightarrow>
          probeSettled publicUrl r now
            (s\<lparr> inflight := filter (\<lambda>p. fst p \<noteq> i) (inflight s) \<rparr>))"
| "handle ResizeAnotherClick s = resizeAnother s"
| "handle (DownloadClick now) s = handleDownloadClick now s"
| "handle (DownloadSettled err) s = handleDownload_settled err s"

definition step :: "event \<Rightarrow> state \<Rightarrow> state" where
  "step e s = rerender s (handle e s)"

fun run :: "event list \<Rightarrow> state \<Rightarrow> state" where
  "run [] s = s"
| "run (e # es) s = run es (step e s)"


section \<open>Vocabulary of the claims about polling\<close>

text \<open>A probe finds the artifact when its response is \<^verbatim>\<open>ok\<close>.\<close>

definition found :: "response \<Rightarrow> bool" where
  "found r = (case r of Response status \<Rightarrow> ok status | NetworkError \<Rightarrow> False)"

text \<open>
  The timers that are set are the one timer whose handle is in \<^verbatim>\<open>pollingIntervalRef\<close>,
  or none; and while a timer is set no file is selected.
\<close>

definition timer_ok :: "state \<Rightarrow> bool" where
  "timer_ok s \<longleftrightarrow>
     nextTimer s \<noteq> 0 \<and>
     (case pollingIntervalRef s of
        None \<Rightarrow> timers s = []
      | Some h \<Rightarrow> h \<noteq> 0 \<and> h < nextTimer s \<and> map fst (timers s) = [h])"

definition timer_inv :: "state \<Rightarrow> bool" where
  "timer_inv s \<longleftrightarrow> timer_ok s \<and> (pollingIntervalRef s \<noteq> None \<longrightarrow> selectedFile s = None)"

fun is_head :: "request \<Rightarrow> bool" where
  "is_head (Head url) = True"
| "is_head _ = False"

definition probes :: "state \<Rightarrow> nat" where
  "probes s = length (filter is_head (requests s))"

text \<open>
  The events of a poll in which no probe finds the artifact: timer callbacks, and probes
  that settle with anything but success.
\<close>

fun quiet :: "event \<Rightarrow> bool" where
  "quiet (Tick h now) = True"
| "quiet (ProbeSettled i r now) = (\<not> found r)"
| "quiet _ = False"

fun is_tick :: "nat \<Rightarrow> event \<Rightarrow> bool" where
  "is_tick h (Tick h' now) = (h' = h)"
| "is_tick h _ = False"

definition ticks :: "nat \<Rightarrow> event list \<Rightarrow> nat" where
  "ticks h evs = length (filter (is_tick h) evs)"



definition timedOut :: "state \<Rightarrow> bool" where
  "timedOut s \<longleftrightarrow>
     pollingIntervalRef s = None \<and> timers s = [] \<and> \<not> isLoading s \<and>
     uploadStatus s = js ''Image processing timed out. Please try again.''"

text \<open>A sample job: one file is selected, the upload runs to its end and the poll starts.\<close>

definition sample_file :: js_file where
  "sample_file = \<lparr> file_name = js ''a.png'', file_type = js ''image/png'' \<rparr>"

definition sample_url :: js_string where
  "sample_url = js ''https://vyomuchat-image-resizer-output.s3.eu-north-1.amazonaws.com/resized-q85_w128_h128/a.jpeg''"

definition sample_upload :: "event list" where
  "sample_upload =
     [FileChange (Some sample_file), UploadClick,
      UploadUrlReceived sample_file (js ''https://upload.example/put''),
      UploadDone (js ''q85_w128_h128/a.png'')]"

text \<open>A second job, started while the first poll has a probe in flight.\<close>

definition second_file :: js_file where
  "second_file = \<lparr> file_name = js ''b.png'', file_type = js ''image/png'' \<rparr>"

definition second_url :: js_string where
  "second_url = js ''https://vyomuchat-image-resizer-output.s3.eu-north-1.amazonaws.com/resized-q85_w128_h128/b.jpeg''"

definition second_upload :: "event list" where
  "second_upload =
     [FileChange (Some second_file), UploadClick,
      UploadUrlReceived second_file (js ''https://upload.example/put2''),
      UploadDone (js ''q85_w128_h128/b.png'')]"

section \<open>Properties of the key codec\<close>

subsection \<open>The matchers accept exactly the two shapes\<close>

lemma lit_append: "lit p (p @ r) = Some r"
  by (simp add: lit_def)

lemma lit_Some: "lit p s = Some r \<Longrightarrow> s = p @ r"
  by (auto simp: lit_def split: if_splits) (metis append_take_drop_id)

lemma digits1_complete:
  "digits d \<Longrightarrow> \<not> isDigit c \<Longrightarrow> digits1 (d @ c # r) = Some (d, c # r)"
  by (simp add: digits_def digits1_def Let_def takeWhile_tail dropWhile_append3)

lemma digits1_sound:
  "digits1 s = Some (d, r) \<Longrightarrow> digits d \<and> s = d @ r"
  by (auto simp: digits1_def digits_def Let_def split: if_splits dest: set_takeWhileD)

lemma slash_not_digit: "\<not> isDigit (of_char CHR ''/'')" by (simp add: isDigit_def)
lemma us_not_digit: "\<not> isDigit (of_char CHR ''_'')" by (simp add: isDigit_def)
lemma u_not_digit: "\<not> isDigit (of_char CHR ''u'')" by (simp add: isDigit_def)

lemma match_new_complete:
  assumes "digits d1" "digits d2" "digits d3"
  shows "match_new (js ''q'' @ d1 @ js ''_w'' @ d2 @ js ''_h'' @ d3 @ js ''/'' @ name)
         = Some (js ''q'' @ d1 @ js ''_w'' @ d2 @ js ''_h'' @ d3, dotStar name)"
proof -
  have a: "digits1 (d1 @ js ''_w'' @ d2 @ js ''_h'' @ d3 @ js ''/'' @ name)
           = Some (d1, js ''_w'' @ d2 @ js ''_h'' @ d3 @ js ''/'' @ name)"
    using digits1_complete [OF assms(1) us_not_digit] by (simp add: js_def)
  have b: "digits1 (d2 @ js ''_h'' @ d3 @ js ''/'' @ name)
           = Some (d2, js ''_h'' @ d3 @ js ''/'' @ name)"
    using digits1_complete [OF assms(2) us_not_digit] by (simp add: js_def)
  have c: "digits1 (d3 @ js ''/'' @ name) = Some (d3, js ''/'' @ name)"
    using digits1_complete [OF assms(3) slash_not_digit] by (simp add: js_def)
  show ?thesis
    unfolding match_new_def
    by (simp only: lit_append a b c bind.bind_lunit split)
qed

lemma match_new_sound:
  assumes "match_new k = Some (p, f)"
  shows "\<exists>d1 d2 d3 name. digits d1 \<and> digits d2 \<and> digits d3 \<and>
           p = js ''q'' @ d1 @ js ''_w'' @ d2 @ js ''_h'' @ d3 \<and>
           k = p @ js ''/'' @ name \<and> f = dotStar name"
  using assms unfolding match_new_def
  by (auto simp: bind_eq_Some_conv dest!: lit_Some digits1_sound) blast

lemma match_old_complete:
  assumes "digits d"
  shows "match_old (js ''quality'' @ d @ js ''/'' @ name)
         = Some (js ''quality'' @ d, dotStar name)"
proof -
  have a: "digits1 (d @ js ''/'' @ name) = Some (d, js ''/'' @ name)"
    using digits1_complete [OF assms slash_not_digit] by (simp add: js_def)
  show ?thesis
    unfolding match_old_def
    by (simp only: lit_append a bind.bind_lunit split)
qed

lemma match_old_sound:
  assumes "match_old k = Some (p, f)"
  shows "\<exists>d name. digits d \<and> p = js ''quality'' @ d \<and>
           k = p @ js ''/'' @ name \<and> f = dotStar name"
  using assms unfolding match_old_def
  by (auto simp: bind_eq_Some_conv dest!: lit_Some digits1_sound)

lemma match_new_quality: "match_new (js ''quality'' @ r) = None"
proof -
  have "lit (js ''q'') (js ''quality'' @ r) = Some (js ''uality'' @ r)"
    by (simp add: lit_def js_def)
  moreover have "digits1 (js ''uality'' @ r) = None"
    using u_not_digit by (simp add: digits1_def js_def)
  ultimately show ?thesis
    by (simp add: match_new_def)
qed

lemma new_shape_iff: "new_shape k \<longleftrightarrow> match_new k \<noteq> None"
proof
  assume "new_shape k"
  then obtain d1 d2 d3 name where "digits d1" "digits d2" "digits d3"
    and "k = js ''q'' @ d1 @ js ''_w'' @ d2 @ js ''_h'' @ d3 @ js ''/'' @ name"
    by (auto simp: new_shape_def is_new_prefix_def)
  then show "match_new k \<noteq> None"
    by (simp add: match_new_complete)
next
  assume "match_new k \<noteq> None"
  then obtain p f where "match_new k = Some (p, f)" by auto
  from match_new_sound [OF this] show "new_shape k"
    unfolding new_shape_def is_new_prefix_def by blast
qed

lemma legacy_shape_iff: "legacy_shape k \<longleftrightarrow> match_old k \<noteq> None"
proof
  assume "legacy_shape k"
  then obtain d name where "digits d" and "k = js ''quality'' @ d @ js ''/'' @ name"
    by (auto simp: legacy_shape_def is_legacy_prefix_def)
  then show "match_old k \<noteq> None"
    by (simp add: match_old_complete)
next
  assume "match_old k \<noteq> None"
  then obtain p f where "match_old k = Some (p, f)" by auto
  from match_old_sound [OF this] show "legacy_shape k"
    unfolding legacy_shape_def is_legacy_prefix_def by blast
qed

lemma lastIndexOf_absent: "c \<notin> set s \<Longrightarrow> lastIndexOf s c = - 1"
  by (simp add: lastIndexOf_def)

lemma lastIndexOf_last:
  "c \<notin> set ext \<Longrightarrow> lastIndexOf (stem @ c # ext) c = int (length stem)"
proof -
  assume a: "c \<notin> set ext"
  have "takeWhile (\<lambda>x. x \<noteq> c) (rev ext @ c # rev stem) = rev ext"
    using a by (auto simp: takeWhile_tail)
  then show ?thesis
    by (simp add: lastIndexOf_def)
qed

lemma baseNameOf_no_dot: "dot \<notin> set s \<Longrightarrow> baseNameOf s = s"
  by (simp add: baseNameOf_def lastIndexOf_absent substring_def js_or_def)

lemma baseNameOf_leading_dot: "dot \<notin> set ext \<Longrightarrow> baseNameOf (dot # ext) = dot # ext"
  using lastIndexOf_last [of dot ext "[]"]
  by (simp add: baseNameOf_def substring_def js_or_def)

lemma baseNameOf_stem:
  "stem \<noteq> [] \<Longrightarrow> dot \<notin> set ext \<Longrightarrow> baseNameOf (stem @ dot # ext) = stem"
  using lastIndexOf_last [of dot ext stem]
  by (simp add: baseNameOf_def substring_def js_or_def Let_def)

lemma extension_jpeg: "toLowerCase outputFormat = js ''jpeg''"
  by (simp add: toLowerCase_def outputFormat_def js_def)

lemma getOutputKey_new:
  assumes "digits d1" "digits d2" "digits d3"
  shows "getOutputKey (js ''q'' @ d1 @ js ''_w'' @ d2 @ js ''_h'' @ d3 @ js ''/'' @ name)
         = js ''resized-'' @ (js ''q'' @ d1 @ js ''_w'' @ d2 @ js ''_h'' @ d3) @ js ''/''
             @ baseNameOf (dotStar name) @ js ''.jpeg''"
proof -
  have "js ''.'' @ js ''jpeg'' = js ''.jpeg''"
    by (simp add: js_def)
  then show ?thesis
    unfolding getOutputKey_def match_new_complete [OF assms] extension_jpeg
    by simp
qed

lemma getOutputKey_old:
  assumes "digits d"
  shows "getOutputKey (js ''quality'' @ d @ js ''/'' @ name)
         = js ''resized-'' @ (js ''quality'' @ d) @ js ''/''
             @ baseNameOf (dotStar name) @ js ''.jpeg''"
proof -
  have "match_new (js ''quality'' @ d @ js ''/'' @ name) = None"
    by (rule match_new_quality)
  moreover have "js ''.'' @ js ''jpeg'' = js ''.jpeg''"
    by (simp add: js_def)
  ultimately show ?thesis
    unfolding getOutputKey_def match_old_complete [OF assms] extension_jpeg
    by simp
qed

lemma dotStar_id: "\<forall>c \<in> set name. \<not> isLineTerminator c \<Longrightarrow> dotStar name = name"
  by (simp add: dotStar_def)

subsection \<open>The claims about getOutputKey\<close>

text \<open>
  Claim C5. The input key \<^verbatim>\<open>q85_w128_h128/a.png\<close> is mapped to the output location
  \<^verbatim>\<open>resized-q85_w128_h128/a.jpeg\<close>: the prefix is carried through behind \<^verbatim>\<open>resized-\<close>
  and the extension of the file name is replaced by the output format \<^verbatim>\<open>jpeg\<close>.
\<close>

theorem getOutputKey_end_to_end:
  "getOutputKey (js ''q85_w128_h128/a.png'') = js ''resized-q85_w128_h128/a.jpeg''"
  by (simp add: getOutputKey_def match_new_def lit_def digits1_def dotStar_def js_def
      isDigit_def isLineTerminator_def baseNameOf_def js_or_def substring_def
      lastIndexOf_def dot_def toLowerCase_def outputFormat_def)


text \<open>
  Claim C1, as the source has it. The claim says that a key of neither shape makes
  \<^verbatim>\<open>getOutputKey\<close> return a parse error instead of a location. The source has no
  error value: for such a key the function returns the location string
  \<^verbatim>\<open>resized-unknown/<key>\<close>. At the key \<^verbatim>\<open>garbage\<close>, which has neither shape, the
  result is the string \<^verbatim>\<open>resized-unknown/garbage\<close>.
\<close>

theorem getOutputKey_garbage_counterexample:
  "\<not> new_shape (js ''garbage'') \<and> \<not> legacy_shape (js ''garbage'') \<and>
   getOutputKey (js ''garbage'') = js ''resized-unknown/garbage''"
  by (simp add: new_shape_iff legacy_shape_iff getOutputKey_def match_new_def match_old_def
      lit_def js_def)

text \<open>
  Claim C1, amended. For every key that has neither the shape
  \<^verbatim>\<open>q<digits>_w<digits>_h<digits>/<name>\<close> nor the shape \<^verbatim>\<open>quality<digits>/<name>\<close>,
  \<^verbatim>\<open>getOutputKey\<close> returns the fallback location \<^verbatim>\<open>resized-unknown/\<close> followed by
  the whole key, unchanged.
\<close>

theorem getOutputKey_unrecognised:
  "\<not> new_shape k \<Longrightarrow> \<not> legacy_shape k \<Longrightarrow> getOutputKey k = js ''resized-unknown/'' @ k"
  by (auto simp: new_shape_iff legacy_shape_iff getOutputKey_def split: option.splits)

theorem getOutputKey_unrecognised_witness:
  "\<not> new_shape (js ''photo.png'') \<and> \<not> legacy_shape (js ''photo.png'') \<and>
   getOutputKey (js ''photo.png'') = js ''resized-unknown/'' @ js ''photo.png''"
proof -
  have n: "\<not> new_shape (js ''photo.png'')"
    by (simp add: new_shape_iff match_new_def lit_def js_def)
  have l: "\<not> legacy_shape (js ''photo.png'')"
    by (simp add: legacy_shape_iff match_old_def lit_def js_def)
  from n l getOutputKey_unrecognised [OF n l] show ?thesis
    by blast
qed

text \<open>
  Claim C8, as stated. The key \<^verbatim>\<open>quality42/\<close>, U+2028, \<^verbatim>\<open>x.png\<close> has the legacy shape:
  the pattern matches it. The dot of \<^verbatim>\<open>(.*)\<close> does not match a line terminator, so
  the captured file name is empty, and the derived location is
  \<^verbatim>\<open>resized-quality42/.jpeg\<close>: the file name after the slash is lost, not stripped of
  its extension.
\<close>

theorem getOutputKey_legacy_line_terminator_counterexample:
  "legacy_shape (js ''quality42/'' @ [0x2028] @ js ''x.png'') \<and>
   getOutputKey (js ''quality42/'' @ [0x2028] @ js ''x.png'') = js ''resized-quality42/.jpeg'' \<and>
   getOutputKey (js ''quality42/'' @ [0x2028] @ js ''x.png'')
     \<noteq> js ''resized-quality42/'' @ [0x2028] @ js ''x.jpeg''"
  by (simp add: legacy_shape_iff getOutputKey_def match_new_def match_old_def lit_def
      digits1_def dotStar_def js_def isDigit_def isLineTerminator_def baseNameOf_def js_or_def
      substring_def lastIndexOf_def toLowerCase_def outputFormat_def)

text \<open>
  Claim C8, amended. For every key \<^verbatim>\<open>quality<digits>/<name>\<close> whose name contains no line
  terminator (U+000A, U+000D, U+2028, U+2029), the derivation takes the legacy branch and
  returns \<^verbatim>\<open>resized-quality<digits>/<baseName>.jpeg\<close>. The base name is computed from
  the name by the same expression as for a key of the new shape with the same name
  (second conjunct), so the two results differ in the prefix only. That expression
  strips the trailing extension: a name \<^verbatim>\<open>stem.ext\<close> with a non-empty stem and no dot
  in \<^verbatim>\<open>ext\<close> has the base name \<^verbatim>\<open>stem\<close>.
\<close>

theorem getOutputKey_legacy_shape:
  assumes "digits d" and "\<forall>c \<in> set name. \<not> isLineTerminator c"
  shows "getOutputKey (js ''quality'' @ d @ js ''/'' @ name)
           = js ''resized-'' @ (js ''quality'' @ d) @ js ''/''
               @ baseNameOf name @ js ''.'' @ toLowerCase outputFormat
         \<and> (digits d1 \<and> digits d2 \<and> digits d3 \<longrightarrow>
             getOutputKey (js ''q'' @ d1 @ js ''_w'' @ d2 @ js ''_h'' @ d3 @ js ''/'' @ name)
               = js ''resized-'' @ (js ''q'' @ d1 @ js ''_w'' @ d2 @ js ''_h'' @ d3) @ js ''/''
                   @ baseNameOf name @ js ''.'' @ toLowerCase outputFormat)
         \<and> (name = stem @ dot # ext \<and> stem \<noteq> [] \<and> dot \<notin> set ext \<longrightarrow>
             baseNameOf name = stem \<and>
             getOutputKey (js ''quality'' @ d @ js ''/'' @ name)
               = js ''resized-'' @ (js ''quality'' @ d) @ js ''/'' @ stem @ js ''.jpeg'')
         \<and> toLowerCase outputFormat = js ''jpeg''"
proof -
  have e: "js ''.'' @ js ''jpeg'' = js ''.jpeg''"
    by (simp add: js_def)
  have n: "dotStar name = name"
    using assms(2) by (rule dotStar_id)
  show ?thesis
    using getOutputKey_old [OF assms(1), of name] getOutputKey_new [of d1 d2 d3 name]
      baseNameOf_stem [of stem ext]
    by (auto simp: e n extension_jpeg)
qed

theorem getOutputKey_legacy_shape_witness:
  "digits (js ''42'') \<and> list_all (\<lambda>c. \<not> isLineTerminator c) (js ''photo.png'') \<and>
   js ''photo.png'' = js ''photo'' @ dot # js ''png'' \<and> js ''photo'' \<noteq> [] \<and>
   dot \<notin> set (js ''png'') \<and>
   getOutputKey (js ''quality'' @ js ''42'' @ js ''/'' @ js ''photo.png'')
     = js ''resized-quality42/photo.jpeg''"
proof -
  have d: "digits (js ''42'')"
    by (simp add: digits_def js_def isDigit_def)
  have l: "\<forall>c \<in> set (js ''photo.png''). \<not> isLineTerminator c"
    by (simp add: js_def isLineTerminator_def)
  have s: "js ''photo.png'' = js ''photo'' @ dot # js ''png''" "js ''photo'' \<noteq> []"
    "dot \<notin> set (js ''png'')"
    by (simp_all add: js_def dot_def)
  from getOutputKey_legacy_shape [OF d l, of _ _ _ "js ''photo''" "js ''png''"] s
  have "getOutputKey (js ''quality'' @ js ''42'' @ js ''/'' @ js ''photo.png'')
          = js ''resized-'' @ (js ''quality'' @ js ''42'') @ js ''/'' @ js ''photo'' @ js ''.jpeg''"
    by blast
  with d l s show ?thesis
    by (simp add: js_def list_all_iff)
qed

text \<open>
  Claim C10, as stated. The key \<^verbatim>\<open>q1_w1_h1/\<close> has the new shape; its file segment is
  empty, so it contains no dot. The base name is the whole segment, which is the empty
  string, and the derived location is \<^verbatim>\<open>resized-q1_w1_h1/.jpeg\<close>: the claim's last
  clause, that the base name is never empty, fails here. It fails too for the key
  \<^verbatim>\<open>q1_w1_h1/\<close>, U+000A, \<^verbatim>\<open>foo\<close>, whose segment is not empty and has no dot: \<^verbatim>\<open>(.*)\<close>
  stops at the line terminator, so the base name is empty again and the segment is
  not part of the result.
\<close>

theorem getOutputKey_empty_segment_counterexample:
  "new_shape (js ''q1_w1_h1/'') \<and>
   match_new (js ''q1_w1_h1/'') = Some (js ''q1_w1_h1'', []) \<and>
   dot \<notin> set [] \<and> baseNameOf [] = [] \<and>
   getOutputKey (js ''q1_w1_h1/'') = js ''resized-q1_w1_h1/'' @ [] @ js ''.jpeg'' \<and>
   new_shape (js ''q1_w1_h1/'' @ [0x0A] @ js ''foo'') \<and>
   dot \<notin> set ([0x0A] @ js ''foo'') \<and>
   getOutputKey (js ''q1_w1_h1/'' @ [0x0A] @ js ''foo'') = js ''resized-q1_w1_h1/.jpeg''"
  by (simp add: new_shape_iff getOutputKey_def match_new_def lit_def digits1_def dotStar_def
      js_def isDigit_def isLineTerminator_def baseNameOf_def js_or_def substring_def
      lastIndexOf_def toLowerCase_def outputFormat_def dot_def)

text \<open>
  Claim C10, amended. For every key of either shape whose file segment (everything
  after the slash) contains no line terminator and either contains no dot or has its
  only dot in front, the base name is the whole segment and the derived location is
  \<^verbatim>\<open>resized-<prefix>/<segment>.jpeg\<close>. The base name is empty only when the segment is
  empty.
\<close>

theorem getOutputKey_whole_segment:
  assumes "is_new_prefix p \<or> is_legacy_prefix p"
    and "\<forall>c \<in> set name. \<not> isLineTerminator c"
    and "dot \<notin> set name \<or> (\<exists>ext. name = dot # ext \<and> dot \<notin> set ext)"
  shows "getOutputKey (p @ js ''/'' @ name) = js ''resized-'' @ p @ js ''/'' @ name @ js ''.jpeg''
         \<and> baseNameOf name = name
         \<and> (name \<noteq> [] \<longrightarrow> baseNameOf name \<noteq> [])"
proof -
  have n: "dotStar name = name"
    using assms(2) by (rule dotStar_id)
  have b: "baseNameOf name = name"
    using assms(3) baseNameOf_no_dot baseNameOf_leading_dot by metis
  have "getOutputKey (p @ js ''/'' @ name)
          = js ''resized-'' @ p @ js ''/'' @ baseNameOf (dotStar name) @ js ''.jpeg''"
    using assms(1)
  proof
    assume "is_new_prefix p"
    then obtain d1 d2 d3 where "digits d1" "digits d2" "digits d3"
      and "p = js ''q'' @ d1 @ js ''_w'' @ d2 @ js ''_h'' @ d3"
      unfolding is_new_prefix_def by blast
    then show ?thesis
      using getOutputKey_new [of d1 d2 d3 name] by simp
  next
    assume "is_legacy_prefix p"
    then obtain d where "digits d" and "p = js ''quality'' @ d"
      unfolding is_legacy_prefix_def by blast
    then show ?thesis
      using getOutputKey_old [of d name] by simp
  qed
  with b n show ?thesis
    by simp
qed

theorem getOutputKey_whole_segment_witness:
  "is_new_prefix (js ''q85_w128_h128'') \<and>
   list_all (\<lambda>c. \<not> isLineTerminator c) (js ''README'') \<and> dot \<notin> set (js ''README'') \<and>
   getOutputKey (js ''q85_w128_h128'' @ js ''/'' @ js ''README'')
     = js ''resized-q85_w128_h128/README.jpeg''"
proof -
  have d: "digits (js ''85'')" "digits (js ''128'')"
    by (simp_all add: digits_def js_def isDigit_def)
  have "js ''q85_w128_h128'' = js ''q'' @ js ''85'' @ js ''_w'' @ js ''128'' @ js ''_h'' @ js ''128''"
    by (simp add: js_def)
  with d have p: "is_new_prefix (js ''q85_w128_h128'')"
    unfolding is_new_prefix_def by blast
  have l: "\<forall>c \<in> set (js ''README''). \<not> isLineTerminator c"
    by (simp add: js_def isLineTerminator_def)
  have n: "dot \<notin> set (js ''README'')"
    by (simp add: js_def dot_def)
  from getOutputKey_whole_segment [of "js ''q85_w128_h128''" "js ''README''"] p l n
  have "getOutputKey (js ''q85_w128_h128'' @ js ''/'' @ js ''README'')
          = js ''resized-'' @ js ''q85_w128_h128'' @ js ''/'' @ js ''README'' @ js ''.jpeg''"
    by blast
  with p l n show ?thesis
    by (simp add: js_def list_all_iff)
qed

section \<open>Properties of the polling\<close>

subsection \<open>At most one timer\<close>

lemma timer_ok_alt:
  "timer_ok s \<longleftrightarrow>
     nextTimer s \<noteq> 0 \<and>
     (pollingIntervalRef s = None \<longrightarrow> timers s = []) \<and>
     (\<forall>h. pollingIntervalRef s = Some h \<longrightarrow>
        h \<noteq> 0 \<and> h < nextTimer s \<and> map fst (timers s) = [h])"
  by (simp add: timer_ok_def split: option.splits)

lemma stopPolling_frame [simp]:
  "selectedFile (stopPolling s) = selectedFile s"
  "uploadStatus (stopPolling s) = uploadStatus s"
  "isLoading (stopPolling s) = isLoading s"
  "resizedImageUrl (stopPolling s) = resizedImageUrl s"
  "originalPreviewUrl (stopPolling s) = originalPreviewUrl s"
  "lastUploadedKey (stopPolling s) = lastUploadedKey s"
  "quality (stopPolling s) = quality s"
  "width (stopPolling s) = width s"
  "height (stopPolling s) = height s"
  "nextTimer (stopPolling s) = nextTimer s"
  "requests (stopPolling s) = requests s"
  "inflight (stopPolling s) = inflight s"
  by (simp_all add: stopPolling_def split: option.splits)

lemma stopPolling_idle: "pollingIntervalRef s = None \<Longrightarrow> stopPolling s = s"
  by (simp add: stopPolling_def)

lemma stopPolling_stops:
  assumes "timer_ok s"
  shows "timers (stopPolling s) = []" and "pollingIntervalRef (stopPolling s) = None"
proof -
  show "timers (stopPolling s) = []"
  proof (cases "pollingIntervalRef s")
    case None
    with assms show ?thesis by (simp add: timer_ok_alt stopPolling_def)
  next
    case (Some h)
    with assms have "map fst (timers s) = [h]" and "h \<noteq> 0"
      by (simp_all add: timer_ok_alt)
    then show ?thesis using Some
      by (auto simp: stopPolling_def clearInterval_def filter_empty_conv map_eq_Cons_conv)
  qed
  show "pollingIntervalRef (stopPolling s) = None"
  proof (cases "pollingIntervalRef s")
    case None
    then show ?thesis by (simp add: stopPolling_def)
  next
    case (Some h)
    with assms have "h \<noteq> 0"
      by (simp add: timer_ok_alt)
    then show ?thesis using Some by (simp add: stopPolling_def)
  qed
qed

lemma timer_ok_upd:
  "timer_ok s \<Longrightarrow> timers s' = timers s \<Longrightarrow> pollingIntervalRef s' = pollingIntervalRef s \<Longrightarrow>
   nextTimer s' = nextTimer s \<Longrightarrow> timer_ok s'"
  by (simp add: timer_ok_alt)

lemma timer_ok_stopPolling: "timer_ok s \<Longrightarrow> timer_ok (stopPolling s)"
proof -
  assume a: "timer_ok s"
  then have "nextTimer s \<noteq> 0" by (simp add: timer_ok_alt)
  with stopPolling_stops [OF a] show ?thesis
    by (simp add: timer_ok_alt [of "stopPolling s"])
qed

lemma timer_inv_stopped: "timer_ok s \<Longrightarrow> timer_inv (stopPolling s)"
  by (simp add: timer_inv_def timer_ok_stopPolling stopPolling_stops)

lemma timer_inv_upd:
  "timer_inv s \<Longrightarrow> timers s' = timers s \<Longrightarrow> pollingIntervalRef s' = pollingIntervalRef s \<Longrightarrow>
   nextTimer s' = nextTimer s \<Longrightarrow> selectedFile s' = selectedFile s \<Longrightarrow> timer_inv s'"
  by (simp add: timer_inv_def timer_ok_alt)

lemma pollingEffect_inv:
  assumes "timer_ok s" and "selectedFile s = None \<or> lastUploadedKey s = None"
  shows "timer_inv (pollingEffect s)"
proof -
  let ?s1 = "stopPolling s"
  have 1: "timers ?s1 = []" "pollingIntervalRef ?s1 = None"
    using assms(1) by (simp_all add: stopPolling_stops)
  have n: "nextTimer ?s1 \<noteq> 0"
    using assms(1) by (simp add: timer_ok_alt)
  have i: "timer_inv ?s1"
    using assms(1) by (rule timer_inv_stopped)
  show ?thesis
  proof (cases "lastUploadedKey s")
    case None
    with i show ?thesis by (simp add: pollingEffect_def)
  next
    case (Some key)
    with assms(2) have f: "selectedFile s = None" by simp
    show ?thesis
    proof (cases "key = []")
      case True
      with i Some show ?thesis by (simp add: pollingEffect_def)
    next
      case False
      with Some 1 n f show ?thesis
        by (simp add: pollingEffect_def Let_def timer_inv_def timer_ok_alt)
    qed
  qed
qed

text \<open>Every poll that the effect starts is in the state that the claims about a poll start from.\<close>

lemma pollingEffect_starts:
  assumes "timer_ok s" and "lastUploadedKey s = Some key" and "key \<noteq> []"
  shows "pollingIntervalRef (pollingEffect s) = Some (nextTimer s)"
    and "timers (pollingEffect s) =
           [(nextTimer s, js ''https://'' @ outputBucketName @ js ''.s3.'' @ region
                            @ js ''.amazonaws.com/'' @ getOutputKey key)]"
    and "pollingAttemptsRef (pollingEffect s) = 0"
    and "nextTimer s \<noteq> 0"
proof -
  have 1: "timers (stopPolling s) = []"
    using assms(1) by (rule stopPolling_stops)
  show "pollingIntervalRef (pollingEffect s) = Some (nextTimer s)"
    using assms(2,3) by (simp add: pollingEffect_def Let_def)
  show "timers (pollingEffect s) =
           [(nextTimer s, js ''https://'' @ outputBucketName @ js ''.s3.'' @ region
                            @ js ''.amazonaws.com/'' @ getOutputKey key)]"
    using assms(2,3) 1 by (simp add: pollingEffect_def Let_def)
  show "pollingAttemptsRef (pollingEffect s) = 0"
    using assms(2,3) by (simp add: pollingEffect_def Let_def)
  show "nextTimer s \<noteq> 0"
    using assms(1) by (simp add: timer_ok_alt)
qed

lemma rerender_inv:
  assumes "timer_inv new"
    and "lastUploadedKey new \<noteq> lastUploadedKey old \<Longrightarrow>
         selectedFile new = None \<or> lastUploadedKey new = None"
  shows "timer_inv (rerender old new)"
proof (cases "lastUploadedKey new = lastUploadedKey old")
  case True
  with assms(1) show ?thesis by (simp add: rerender_def)
next
  case False
  have "timer_ok (stopPolling new)"
    using assms(1) by (simp add: timer_inv_def timer_ok_stopPolling)
  moreover have "selectedFile (stopPolling new) = None \<or> lastUploadedKey (stopPolling new) = None"
    using assms(2) False by simp
  ultimately show ?thesis
    using False by (simp add: rerender_def pollingEffect_inv)
qed

lemma intervalCallback_inv:
  assumes "timer_inv s"
  shows "timer_inv (intervalCallback u now s)"
proof (cases "pollingAttemptsRef s + 1 > maxPollingAttempts")
  case True
  have "timer_ok (s\<lparr>pollingAttemptsRef := pollingAttemptsRef s + 1,
          uploadStatus := js ''Image processing timed out. Please try again.'',
          isLoading := False\<rparr>)"
    by (rule timer_ok_upd [of s]) (use assms in \<open>simp_all add: timer_inv_def\<close>)
  from timer_inv_stopped [OF this] True show ?thesis
    by (simp add: intervalCallback_def Let_def)
next
  case False
  have "timer_inv (s\<lparr>pollingAttemptsRef := pollingAttemptsRef s + 1,
          requests := requests s @ [Head (u @ js ''?t='' @ decimal now)],
          inflight := inflight s @ [(length (requests s), u)]\<rparr>)"
    by (rule timer_inv_upd [OF assms]) simp_all
  with False show ?thesis
    by (simp add: intervalCallback_def Let_def)
qed

lemma probeSettled_inv:
  assumes "timer_inv s"
  shows "timer_inv (probeSettled u r now s)"
proof (cases "found r")
  case True
  have "timer_ok s"
    using assms by (simp add: timer_inv_def)
  then have "timer_inv (stopPolling s)"
    by (rule timer_inv_stopped)
  then have "timer_inv ((stopPolling s)
                 \<lparr> resizedImageUrl := Some (u @ js ''?t='' @ decimal now),
                   uploadStatus := js ''Resized image loaded.'',
                   isLoading := False \<rparr>)"
    by (rule timer_inv_upd) simp_all
  with True show ?thesis
    by (simp add: probeSettled_def found_def split: response.splits)
next
  case False
  with assms show ?thesis
    by (simp add: probeSettled_def found_def split: response.splits)
qed


lemma stopPolling_inv: "timer_inv s \<Longrightarrow> timer_inv (stopPolling s)"
proof -
  assume "timer_inv s"
  then have "timer_ok s" by (simp add: timer_inv_def)
  then show ?thesis by (rule timer_inv_stopped)
qed

lemma handleFileChange_inv: "timer_inv s \<Longrightarrow> timer_inv (handleFileChange f s)"
proof (cases f)
  case None
  assume "timer_inv s"
  then show ?thesis using None
    by (simp add: handleFileChange_def timer_inv_def timer_ok_alt)
next
  case (Some fl)
  assume a: "timer_inv s"
  have "timer_ok (s\<lparr> selectedFile := Some fl,
                uploadStatus := js ''Selected: '' @ file_name fl,
                resizedImageUrl := None,
                lastUploadedKey := None,
                isLoading := False \<rparr>)"
    by (rule timer_ok_upd [of s]) (use a in \<open>simp_all add: timer_inv_def\<close>)
  from timer_inv_stopped [OF this] have "timer_inv (handleFileChange (Some fl) s)"
    unfolding handleFileChange_def option.case
    by (rule timer_inv_upd) simp_all
  with Some show ?thesis by simp
qed

lemma handleUpload_inv: "timer_inv s \<Longrightarrow> timer_inv (handleUpload s)"
proof (cases "selectedFile s")
  case None
  assume "timer_inv s"
  then have "timer_inv (s\<lparr> uploadStatus := js ''Please select a file first.'' \<rparr>)"
    by (rule timer_inv_upd) simp_all
  with None show ?thesis
    by (simp add: handleUpload_def)
next
  case (Some f)
  assume a: "timer_inv s"
  have "timer_ok (s\<lparr> isLoading := True, resizedImageUrl := None,
                      uploadStatus := js ''Getting upload URL...'',
                      lastUploadedKey := None \<rparr>)"
    by (rule timer_ok_upd [of s]) (use a in \<open>simp_all add: timer_inv_def\<close>)
  from timer_inv_stopped [OF this] have "timer_inv (handleUpload s)"
    unfolding handleUpload_def Some option.case Let_def
    by (rule timer_inv_upd) simp_all
  then show ?thesis .
qed

lemma handleUpload_catch_inv: "timer_inv s \<Longrightarrow> timer_inv (handleUpload_catch m s)"
proof -
  assume a: "timer_inv s"
  have "timer_ok (s\<lparr> uploadStatus := js ''Error: '' @ m, isLoading := False,
                      lastUploadedKey := None \<rparr>)"
    by (rule timer_ok_upd [of s]) (use a in \<open>simp_all add: timer_inv_def\<close>)
  from timer_inv_stopped [OF this] show ?thesis
    by (simp add: handleUpload_catch_def)
qed

lemma resizeAnother_inv: "timer_inv s \<Longrightarrow> timer_inv (resizeAnother s)"
proof -
  assume a: "timer_inv s"
  have "timer_ok (s\<lparr> resizedImageUrl := None, originalPreviewUrl := None,
            uploadStatus := [], lastUploadedKey := None, selectedFile := None,
            isLoading := False \<rparr>)"
    by (rule timer_ok_upd [of s]) (use a in \<open>simp_all add: timer_inv_def\<close>)
  from timer_inv_stopped [OF this] show ?thesis
    by (simp add: resizeAnother_def)
qed

lemma handle_inv: "timer_inv s \<Longrightarrow> timer_inv (handle e s)"
proof (cases e)
  case (Tick h now)
  assume "timer_inv s"
  then show ?thesis using Tick
    by (simp add: intervalCallback_inv split: option.splits)
next
  case (ProbeSettled i r now)
  assume a: "timer_inv s"
  have "timer_inv (s\<lparr> inflight := filter (\<lambda>p. fst p \<noteq> i) (inflight s) \<rparr>)"
    by (rule timer_inv_upd [OF a]) simp_all
  then show ?thesis using a ProbeSettled
    by (simp add: probeSettled_inv split: option.splits)
next
  case (UploadDone key)
  assume "timer_inv s"
  then show ?thesis using UploadDone
    by (simp add: handleUpload_uploaded_def timer_inv_def timer_ok_alt)
next
  case (FileChange f)
  assume "timer_inv s"
  then show ?thesis using FileChange by (simp add: handleFileChange_inv)
next
  case UploadClick
  assume "timer_inv s"
  then show ?thesis using UploadClick by (simp add: handleUpload_inv)
next
  case (UploadFailed m)
  assume "timer_inv s"
  then show ?thesis using UploadFailed by (simp add: handleUpload_catch_inv)
next
  case ResizeAnotherClick
  assume "timer_inv s"
  then show ?thesis using ResizeAnotherClick by (simp add: resizeAnother_inv)
qed (simp_all add: timer_inv_def timer_ok_alt reader_onloadend_def reader_onerror_def
      handleQualityChange_def handleDimensionChange_def incrementQuality_def
      decrementQuality_def handleUpload_gotUrl_def
      handleDownloadClick_def handleDownload_settled_def Let_def split: option.splits)

lemma intervalCallback_key [simp]:
  "lastUploadedKey (intervalCallback u now s) = lastUploadedKey s"
  by (simp add: intervalCallback_def Let_def)

lemma probeSettled_key [simp]:
  "lastUploadedKey (probeSettled u r now s) = lastUploadedKey s"
  by (simp add: probeSettled_def split: response.splits)

lemma handle_key:
  "lastUploadedKey (handle e s) \<noteq> lastUploadedKey s \<Longrightarrow>
   selectedFile (handle e s) = None \<or> lastUploadedKey (handle e s) = None"
  by (cases e)
    (simp_all add: handleFileChange_def reader_onloadend_def reader_onerror_def
      handleQualityChange_def handleDimensionChange_def incrementQuality_def
      decrementQuality_def handleUpload_def handleUpload_gotUrl_def handleUpload_uploaded_def
      handleUpload_catch_def resizeAnother_def handleDownloadClick_def
      handleDownload_settled_def Let_def
      split: option.splits if_splits)

lemma timer_inv_init: "timer_inv init"
  by (simp add: timer_inv_def timer_ok_alt init_def)

lemma timer_inv_step: "timer_inv s \<Longrightarrow> timer_inv (step e s)"
  unfolding step_def by (rule rerender_inv) (simp_all add: handle_inv handle_key)

lemma timer_inv_run: "timer_inv s \<Longrightarrow> timer_inv (run evs s)"
  by (induction evs arbitrary: s) (simp_all add: timer_inv_step)

subsection \<open>A poll that never finds the artifact\<close>

lemma rerender_same: "lastUploadedKey new = lastUploadedKey old \<Longrightarrow> rerender old new = new"
  by (simp add: rerender_def)

lemma step_Tick:
  "step (Tick h now) s =
     (case map_of (timers s) h of None \<Rightarrow> s | Some u \<Rightarrow> intervalCallback u now s)"
  by (simp add: step_def rerender_same split: option.splits)

lemma step_ProbeSettled:
  "step (ProbeSettled i r now) s =
     (case map_of (inflight s) i of
        None \<Rightarrow> s
      | Some u \<Rightarrow> probeSettled u r now (s\<lparr> inflight := filter (\<lambda>p. fst p \<noteq> i) (inflight s) \<rparr>))"
  by (simp add: step_def rerender_same split: option.splits)

lemma probeSettled_quiet: "\<not> found r \<Longrightarrow> probeSettled u r now s = s"
  by (simp add: probeSettled_def found_def split: response.splits)

lemma quiet_stopped_step:
  assumes "timers s = []" and "quiet e"
  shows "\<exists>fl. step e s = s\<lparr> inflight := fl \<rparr>"
proof (cases e)
  case (Tick h now)
  with assms have "step e s = s" by (simp add: step_Tick)
  then have "step e s = s\<lparr> inflight := inflight s \<rparr>" by simp
  then show ?thesis ..
next
  case (ProbeSettled i r now)
  with assms have "\<not> found r" by simp
  then have "step e s = s\<lparr> inflight := inflight s \<rparr>
             \<or> step e s = s\<lparr> inflight := filter (\<lambda>p. fst p \<noteq> i) (inflight s) \<rparr>"
    using ProbeSettled by (simp add: step_ProbeSettled probeSettled_quiet split: option.splits)
  then show ?thesis by blast
qed (use assms in simp_all)

lemma quiet_stopped_run:
  assumes "timers s = []" and "\<forall>e \<in> set evs. quiet e"
  shows "\<exists>fl. run evs s = s\<lparr> inflight := fl \<rparr>"
  using assms
proof (induction evs arbitrary: s)
  case Nil
  have "run [] s = s\<lparr> inflight := inflight s \<rparr>" by simp
  then show ?case ..
next
  case (Cons e evs)
  then obtain fl where 1: "step e s = s\<lparr> inflight := fl \<rparr>"
    using quiet_stopped_step [of s e] by auto
  with Cons.prems have "timers (step e s) = []" by simp
  with Cons obtain fl' where "run evs (step e s) = (step e s)\<lparr> inflight := fl' \<rparr>"
    by fastforce
  with 1 have "run (e # evs) s = s\<lparr> inflight := fl' \<rparr>" by simp
  then show ?case ..
qed

lemma stopPolling_single:
  "pollingIntervalRef s = Some h \<Longrightarrow> h \<noteq> 0 \<Longrightarrow> timers s = [(h, u)] \<Longrightarrow>
   stopPolling s = s\<lparr> timers := [], pollingIntervalRef := None, pollingAttemptsRef := 0 \<rparr>"
  by (simp add: stopPolling_def clearInterval_def)

lemma probes_inflight [simp]: "probes (s\<lparr> inflight := fl \<rparr>) = probes s"
  by (simp add: probes_def)

lemma timedOut_inflight [simp]: "timedOut (s\<lparr> inflight := fl \<rparr>) = timedOut s"
  by (simp add: timedOut_def)

lemma ticks_Cons:
  "ticks h (e # evs) = (if is_tick h e then Suc (ticks h evs) else ticks h evs)"
  by (simp add: ticks_def)

lemma poll_run:
  assumes "pollingIntervalRef s = Some h" and "timers s = [(h, url)]" and "h \<noteq> 0"
    and "pollingAttemptsRef s \<le> maxPollingAttempts"
    and "\<forall>e \<in> set evs. quiet e"
  shows "probes (run evs s) = probes s + min (ticks h evs) (maxPollingAttempts - pollingAttemptsRef s)
       \<and> (maxPollingAttempts < pollingAttemptsRef s + ticks h evs \<longrightarrow> timedOut (run evs s))
       \<and> (pollingAttemptsRef s + ticks h evs \<le> maxPollingAttempts \<longrightarrow>
            pollingIntervalRef (run evs s) = Some h \<and> timers (run evs s) = [(h, url)] \<and>
            pollingAttemptsRef (run evs s) = pollingAttemptsRef s + ticks h evs \<and>
            uploadStatus (run evs s) = uploadStatus s \<and> isLoading (run evs s) = isLoading s)"
  using assms
proof (induction evs arbitrary: s)
  case Nil
  then show ?case by (simp add: ticks_def)
next
  case (Cons e evs)
  let ?a = "pollingAttemptsRef s"
  from Cons.prems have q: "quiet e" and qs: "\<forall>e \<in> set evs. quiet e" by simp_all
  show ?case
  proof (cases "is_tick h e")
    case False
    have "\<exists>fl. step e s = s\<lparr> inflight := fl \<rparr>"
    proof (cases e)
      case (Tick h' now)
      with False Cons.prems(2) have "step e s = s\<lparr> inflight := inflight s \<rparr>"
        by (simp add: step_Tick)
      then show ?thesis ..
    next
      case (ProbeSettled i r now)
      with q have "\<not> found r" by simp
      then have "step e s = s\<lparr> inflight := inflight s \<rparr>
             \<or> step e s = s\<lparr> inflight := filter (\<lambda>p. fst p \<noteq> i) (inflight s) \<rparr>"
        using ProbeSettled by (simp add: step_ProbeSettled probeSettled_quiet split: option.splits)
      then show ?thesis by blast
    qed (use q in simp_all)
    then obtain fl where st: "step e s = s\<lparr> inflight := fl \<rparr>" ..
    have "probes (run evs (step e s)) = probes (step e s) + min (ticks h evs) (maxPollingAttempts - pollingAttemptsRef (step e s))
       \<and> (maxPollingAttempts < pollingAttemptsRef (step e s) + ticks h evs \<longrightarrow> timedOut (run evs (step e s)))
       \<and> (pollingAttemptsRef (step e s) + ticks h evs \<le> maxPollingAttempts \<longrightarrow>
            pollingIntervalRef (run evs (step e s)) = Some h \<and> timers (run evs (step e s)) = [(h, url)] \<and>
            pollingAttemptsRef (run evs (step e s)) = pollingAttemptsRef (step e s) + ticks h evs \<and>
            uploadStatus (run evs (step e s)) = uploadStatus (step e s) \<and> isLoading (run evs (step e s)) = isLoading (step e s))"
      by (rule Cons.IH) (use Cons.prems st in simp_all)
    with False st show ?thesis
      by (simp add: ticks_Cons)
  next
    case True
    then obtain now where e: "e = Tick h now" by (cases e) simp_all
    with Cons.prems(2) have st: "step e s = intervalCallback url now s"
      by (simp add: step_Tick)
    show ?thesis
    proof (cases "?a < maxPollingAttempts")
      case less: True
      let ?s' = "s\<lparr> pollingAttemptsRef := ?a + 1,
                    requests := requests s @ [Head (url @ js ''?t='' @ decimal now)],
                    inflight := inflight s @ [(length (requests s), url)] \<rparr>"
      from less st have st': "step e s = ?s'"
        by (simp add: intervalCallback_def Let_def)
      have "probes (run evs ?s') = probes ?s' + min (ticks h evs) (maxPollingAttempts - pollingAttemptsRef ?s')
       \<and> (maxPollingAttempts < pollingAttemptsRef ?s' + ticks h evs \<longrightarrow> timedOut (run evs ?s'))
       \<and> (pollingAttemptsRef ?s' + ticks h evs \<le> maxPollingAttempts \<longrightarrow>
            pollingIntervalRef (run evs ?s') = Some h \<and> timers (run evs ?s') = [(h, url)] \<and>
            pollingAttemptsRef (run evs ?s') = pollingAttemptsRef ?s' + ticks h evs \<and>
            uploadStatus (run evs ?s') = uploadStatus ?s' \<and> isLoading (run evs ?s') = isLoading ?s')"
        by (rule Cons.IH) (use Cons.prems less in simp_all)
      moreover have "probes ?s' = Suc (probes s)"
        by (simp add: probes_def)
      ultimately show ?thesis
        using True less st' by (simp add: ticks_Cons)
    next
      case False
      with Cons.prems(4) have eq: "?a = maxPollingAttempts" by simp
      let ?t = "s\<lparr> pollingAttemptsRef := ?a + 1,
                   uploadStatus := js ''Image processing timed out. Please try again.'',
                   isLoading := False \<rparr>"
      have "stopPolling ?t = ?t\<lparr> timers := [], pollingIntervalRef := None, pollingAttemptsRef := 0 \<rparr>"
        by (rule stopPolling_single [where h = h and u = url]) (use Cons.prems(1-3) in simp_all)
      moreover have "step e s = stopPolling ?t"
        using st eq by (simp add: intervalCallback_def Let_def)
      ultimately have st': "step e s = ?t\<lparr> timers := [], pollingIntervalRef := None, pollingAttemptsRef := 0 \<rparr>"
        by simp
      have to: "timedOut (step e s)" and pr: "probes (step e s) = probes s"
        and tm: "timers (step e s) = []"
        unfolding st' by (simp_all add: timedOut_def probes_def)
      from quiet_stopped_run [OF tm qs] obtain fl
        where "run evs (step e s) = (step e s)\<lparr> inflight := fl \<rparr>" ..
      with to pr True eq show ?thesis
        by (simp add: ticks_Cons)
    qed
  qed
qed

subsection \<open>A sample job\<close>

lemma run_append: "run (xs @ ys) s = run ys (run xs s)"
  by (induction xs arbitrary: s) simp_all

lemma selected_state:
  "run [FileChange (Some sample_file)] init =
     init\<lparr> selectedFile := Some sample_file, uploadStatus := js ''Selected: '' @ js ''a.png'' \<rparr>"
  by (simp add: step_def rerender_def init_def handleFileChange_def stopPolling_def
      sample_file_def)

lemma requesting_state:
  "run [FileChange (Some sample_file), UploadClick] init =
     init\<lparr> selectedFile := Some sample_file, uploadStatus := js ''Getting upload URL...'',
           isLoading := True,
           requests := [GetUploadUrl (js ''a.png'') (Finite 85) (Finite 128) (Finite 128)
                          (js ''image/png'')] \<rparr>"
  by (simp add: step_def rerender_def init_def handleFileChange_def handleUpload_def
      stopPolling_def sample_file_def js_or_def Let_def js_def)

lemma uploading_state:
  "run [FileChange (Some sample_file), UploadClick,
        UploadUrlReceived sample_file (js ''https://upload.example/put'')] init =
     init\<lparr> selectedFile := Some sample_file, uploadStatus := js ''Uploading image...'',
           isLoading := True,
           requests := [GetUploadUrl (js ''a.png'') (Finite 85) (Finite 128) (Finite 128)
                          (js ''image/png''),
                        PutObject (js ''https://upload.example/put'') sample_file
                          (js ''image/png'')] \<rparr>"
proof -
  have t: "js_or (file_type sample_file) (js ''application/octet-stream'') = js ''image/png''"
    by (simp add: sample_file_def js_or_def js_def)
  have e: "run [FileChange (Some sample_file), UploadClick,
        UploadUrlReceived sample_file (js ''https://upload.example/put'')] init =
      step (UploadUrlReceived sample_file (js ''https://upload.example/put''))
        (run [FileChange (Some sample_file), UploadClick] init)"
    by simp
  show ?thesis
    unfolding e requesting_state
    by (simp add: step_def rerender_def init_def handleUpload_gotUrl_def Let_def t)
qed

lemma public_url:
  "js ''https://'' @ outputBucketName @ js ''.s3.'' @ region @ js ''.amazonaws.com/''
     @ getOutputKey (js ''q85_w128_h128/a.png'') = sample_url"
  by (simp add: getOutputKey_def match_new_def lit_def digits1_def dotStar_def js_def
      isDigit_def isLineTerminator_def baseNameOf_def js_or_def substring_def
      lastIndexOf_def dot_def toLowerCase_def outputFormat_def outputBucketName_def
      region_def sample_url_def)

lemma awaiting_state:
  "run sample_upload init =
     init\<lparr> uploadStatus := js ''Upload successful! Waiting for resized version...'',
           isLoading := True,
           lastUploadedKey := Some (js ''q85_w128_h128/a.png''),
           pollingIntervalRef := Some 1,
           timers := [(1, sample_url)],
           nextTimer := 2,
           requests := [GetUploadUrl (js ''a.png'') (Finite 85) (Finite 128) (Finite 128)
                          (js ''image/png''),
                        PutObject (js ''https://upload.example/put'') sample_file
                          (js ''image/png'')] \<rparr>"
proof -
  have k: "js ''q85_w128_h128/a.png'' \<noteq> []" by (simp add: js_def)
  have t: "js_or (file_type sample_file) (js ''application/octet-stream'') = js ''image/png''"
    by (simp add: sample_file_def js_or_def js_def)
  have "run sample_upload init =
      run [UploadUrlReceived sample_file (js ''https://upload.example/put''),
           UploadDone (js ''q85_w128_h128/a.png'')]
        (run [FileChange (Some sample_file), UploadClick] init)"
    unfolding run_append [symmetric] by (simp add: sample_upload_def)
  then show ?thesis
    unfolding requesting_state
    by (simp add: step_def rerender_def init_def handleUpload_gotUrl_def
        handleUpload_uploaded_def stopPolling_def pollingEffect_def Let_def k t public_url)
qed

lemma polling_state:
  "run (sample_upload @ [Tick 1 7]) init =
     (run sample_upload init)
       \<lparr> pollingAttemptsRef := 1,
         requests := requests (run sample_upload init) @ [Head (sample_url @ js ''?t='' @ decimal 7)],
         inflight := [(2, sample_url)] \<rparr>"
  unfolding run_append awaiting_state
  by (simp add: step_Tick intervalCallback_def Let_def maxPollingAttempts_def init_def)

lemma second_public_url:
  "js ''https://'' @ outputBucketName @ js ''.s3.'' @ region @ js ''.amazonaws.com/''
     @ getOutputKey (js ''q85_w128_h128/b.png'') = second_url"
  by (simp add: getOutputKey_def match_new_def lit_def digits1_def dotStar_def js_def
      isDigit_def isLineTerminator_def baseNameOf_def js_or_def substring_def
      lastIndexOf_def dot_def toLowerCase_def outputFormat_def outputBucketName_def
      region_def second_url_def)

lemma second_poll_state:
  "run (sample_upload @ [Tick 1 7] @ second_upload) init =
     init\<lparr> uploadStatus := js ''Upload successful! Waiting for resized version...'',
           isLoading := True,
           lastUploadedKey := Some (js ''q85_w128_h128/b.png''),
           pollingIntervalRef := Some 2,
           timers := [(2, second_url)],
           nextTimer := 3,
           requests := [GetUploadUrl (js ''a.png'') (Finite 85) (Finite 128) (Finite 128)
                          (js ''image/png''),
                        PutObject (js ''https://upload.example/put'') sample_file
                          (js ''image/png''),
                        Head (sample_url @ js ''?t='' @ decimal 7),
                        GetUploadUrl (js ''b.png'') (Finite 85) (Finite 128) (Finite 128)
                          (js ''image/png''),
                        PutObject (js ''https://upload.example/put2'') second_file
                          (js ''image/png'')],
           inflight := [(2, sample_url)] \<rparr>"
proof -
  let ?r1 = "[GetUploadUrl (js ''a.png'') (Finite 85) (Finite 128) (Finite 128) (js ''image/png''),
              PutObject (js ''https://upload.example/put'') sample_file (js ''image/png''),
              Head (sample_url @ js ''?t='' @ decimal 7)]"
  let ?g2 = "GetUploadUrl (js ''b.png'') (Finite 85) (Finite 128) (Finite 128) (js ''image/png'')"
  let ?p2 = "PutObject (js ''https://upload.example/put2'') second_file (js ''image/png'')"
  let ?s1 = "init\<lparr> selectedFile := Some second_file,
                    uploadStatus := js ''Selected: '' @ js ''b.png'',
                    nextTimer := 2, requests := ?r1, inflight := [(2, sample_url)] \<rparr>"
  let ?s2 = "init\<lparr> selectedFile := Some second_file,
                    uploadStatus := js ''Getting upload URL...'', isLoading := True,
                    nextTimer := 2, requests := ?r1 @ [?g2], inflight := [(2, sample_url)] \<rparr>"
  let ?s3 = "init\<lparr> selectedFile := Some second_file,
                    uploadStatus := js ''Uploading image...'', isLoading := True,
                    nextTimer := 2, requests := ?r1 @ [?g2, ?p2], inflight := [(2, sample_url)] \<rparr>"
  have k: "js ''q85_w128_h128/b.png'' \<noteq> []"
    by (simp add: js_def)
  have t: "js_or (file_type second_file) (js ''application/octet-stream'') = js ''image/png''"
    "file_name second_file = js ''b.png''"
    by (simp_all add: second_file_def js_or_def js_def)
  have e: "run (sample_upload @ [Tick 1 7] @ second_upload) init =
      step (UploadDone (js ''q85_w128_h128/b.png''))
        (step (UploadUrlReceived second_file (js ''https://upload.example/put2''))
          (step UploadClick
            (step (FileChange (Some second_file)) (run (sample_upload @ [Tick 1 7]) init))))"
    by (simp add: run_append second_upload_def)
  have a1: "step (FileChange (Some second_file)) (run (sample_upload @ [Tick 1 7]) init) = ?s1"
    unfolding polling_state awaiting_state
    by (simp add: step_def rerender_def init_def handleFileChange_def stopPolling_def
        clearInterval_def pollingEffect_def t)
  have a2: "step UploadClick ?s1 = ?s2"
    by (simp add: step_def rerender_def init_def handleUpload_def stopPolling_def Let_def t)
  have a3: "step (UploadUrlReceived second_file (js ''https://upload.example/put2'')) ?s2 = ?s3"
    by (simp add: step_def rerender_def init_def handleUpload_gotUrl_def Let_def t)
  show ?thesis
    unfolding e a1 a2 a3
    by (simp add: step_def rerender_def init_def handleUpload_uploaded_def stopPolling_def
        pollingEffect_def Let_def k second_public_url)
qed

subsection \<open>The claims about a poll without success\<close>

text \<open>
  Claim C2. Take a poll that has just started (timer set, attempt counter 0) and any
  sequence of timer callbacks and of probes settling without success. The number of
  probes sent is the number of timer callbacks, capped at \<^verbatim>\<open>maxPollingAttempts\<close>: up to
  the cap every callback sends one probe and the counter equals the number of callbacks;
  the callback after that sends none, clears the timer and ends the poll as timed out,
  with exactly \<^verbatim>\<open>maxPollingAttempts\<close> probes sent.
\<close>

theorem polling_exhausts:
  assumes "pollingIntervalRef s = Some h" and "timers s = [(h, url)]" and "h \<noteq> 0"
    and "pollingAttemptsRef s = 0" and "\<forall>e \<in> set evs. quiet e"
  shows "probes (run evs s) = probes s + min (ticks h evs) maxPollingAttempts
       \<and> (ticks h evs \<le> maxPollingAttempts \<longrightarrow>
            pollingIntervalRef (run evs s) = Some h \<and>
            pollingAttemptsRef (run evs s) = ticks h evs \<and>
            isLoading (run evs s) = isLoading s)
       \<and> (maxPollingAttempts < ticks h evs \<longrightarrow>
            timedOut (run evs s) \<and> probes (run evs s) = probes s + maxPollingAttempts)"
  using poll_run [OF assms(1-3) _ assms(5)] assms(4) by simp

theorem polling_exhausts_witness:
  "timedOut (run (replicate 15 (Tick 1 7) @
                 [ProbeSettled 2 (Response 404) 8, ProbeSettled 3 NetworkError 9, Tick 1 10])
              (run sample_upload init)) \<and>
   probes (run (replicate 15 (Tick 1 7) @
                 [ProbeSettled 2 (Response 404) 8, ProbeSettled 3 NetworkError 9, Tick 1 10])
              (run sample_upload init)) = 15"
proof -
  let ?evs = "replicate 15 (Tick 1 7) @
                 [ProbeSettled 2 (Response 404) 8, ProbeSettled 3 NetworkError 9, Tick 1 10]"
  let ?s = "run sample_upload init"
  have 1: "pollingIntervalRef ?s = Some 1" and 2: "timers ?s = [(1, sample_url)]"
    and 3: "(1::nat) \<noteq> 0" and 4: "pollingAttemptsRef ?s = 0" and 5: "probes ?s = 0"
    unfolding awaiting_state by (simp_all add: init_def probes_def)
  have 6: "\<forall>e \<in> set ?evs. quiet e"
    by (simp add: found_def ok_def)
  have 7: "ticks 1 ?evs = 16"
    by (simp add: ticks_def)
  from polling_exhausts [OF 1 2 3 4 6] show ?thesis
    unfolding 5 7 by (simp add: maxPollingAttempts_def)
qed

text \<open>
  Claim C7. A probe that settles with anything but success (an unexpected status, 403
  or 404 alike, or a network fault) leaves the component exactly as a 404 does: the
  timer stays set, the attempt counter, the loading flag, the status text and the result
  are untouched, and the next timer callback sends the next probe as long as the
  counter is below the cap.
\<close>

theorem probe_failure_is_retry:
  assumes "\<not> found r"
  shows "step (ProbeSettled i r now) s = step (ProbeSettled i (Response 404) now) s
       \<and> pollingIntervalRef (step (ProbeSettled i r now) s) = pollingIntervalRef s
       \<and> timers (step (ProbeSettled i r now) s) = timers s
       \<and> pollingAttemptsRef (step (ProbeSettled i r now) s) = pollingAttemptsRef s
       \<and> isLoading (step (ProbeSettled i r now) s) = isLoading s
       \<and> uploadStatus (step (ProbeSettled i r now) s) = uploadStatus s
       \<and> resizedImageUrl (step (ProbeSettled i r now) s) = resizedImageUrl s
       \<and> lastUploadedKey (step (ProbeSettled i r now) s) = lastUploadedKey s
       \<and> requests (step (ProbeSettled i r now) s) = requests s
       \<and> (map_of (timers s) h = Some u \<and> pollingAttemptsRef s < maxPollingAttempts \<longrightarrow>
            requests (step (Tick h t) (step (ProbeSettled i r now) s))
              = requests s @ [Head (u @ js ''?t='' @ decimal t)])"
proof -
  have nf: "\<not> found (Response 404)"
    by (simp add: found_def ok_def)
  have a: "step (ProbeSettled i r' now) s =
        (case map_of (inflight s) i of None \<Rightarrow> s
         | Some u \<Rightarrow> s\<lparr> inflight := filter (\<lambda>p. fst p \<noteq> i) (inflight s) \<rparr>)"
    if "\<not> found r'" for r'
    using that by (simp add: step_ProbeSettled probeSettled_quiet split: option.splits)
  show ?thesis
    unfolding a [OF assms] a [OF nf]
    by (simp add: step_Tick intervalCallback_def Let_def split: option.splits)
qed

theorem probe_failure_is_retry_witness:
  "\<not> found (Response 500) \<and> \<not> found NetworkError \<and>
   step (ProbeSettled 2 (Response 500) 9) (run (sample_upload @ [Tick 1 7]) init)
     = step (ProbeSettled 2 (Response 404) 9) (run (sample_upload @ [Tick 1 7]) init) \<and>
   step (ProbeSettled 2 NetworkError 9) (run (sample_upload @ [Tick 1 7]) init)
     = step (ProbeSettled 2 (Response 404) 9) (run (sample_upload @ [Tick 1 7]) init) \<and>
   pollingIntervalRef (step (ProbeSettled 2 (Response 500) 9) (run (sample_upload @ [Tick 1 7]) init))
     = Some 1"
proof -
  have a: "\<not> found (Response 500)" and b: "\<not> found NetworkError"
    by (simp_all add: found_def ok_def)
  let ?s = "run (sample_upload @ [Tick 1 7]) init"
  have p: "pollingIntervalRef ?s = Some 1"
    unfolding run_append awaiting_state
    by (simp add: step_Tick intervalCallback_def Let_def maxPollingAttempts_def init_def)
  note A = probe_failure_is_retry [OF a, of 2 9 ?s]
  note B = probe_failure_is_retry [OF b, of 2 9 ?s]
  have "step (ProbeSettled 2 (Response 500) 9) ?s = step (ProbeSettled 2 (Response 404) 9) ?s"
    by (rule A [THEN conjunct1])
  moreover
  have "step (ProbeSettled 2 NetworkError 9) ?s = step (ProbeSettled 2 (Response 404) 9) ?s"
    by (rule B [THEN conjunct1])
  moreover
  have "pollingIntervalRef (step (ProbeSettled 2 (Response 500) 9) ?s) = Some 1"
    using A [THEN conjunct2, THEN conjunct1] p by (rule trans)
  ultimately show ?thesis
    using a b by blast
qed

subsection \<open>The claims about the timer\<close>

lemma stopPolling_ref:
  "pollingIntervalRef (stopPolling s) = Some h \<Longrightarrow> pollingIntervalRef s = Some h"
  by (simp add: stopPolling_def split: option.splits if_splits)

lemma intervalCallback_ref:
  "pollingIntervalRef (intervalCallback u now s) = Some h \<Longrightarrow> pollingIntervalRef s = Some h"
  by (auto simp: intervalCallback_def Let_def split: if_splits dest!: stopPolling_ref)

lemma probeSettled_ref:
  "pollingIntervalRef (probeSettled u r now s) = Some h \<Longrightarrow> pollingIntervalRef s = Some h"
  by (auto simp: probeSettled_def split: response.splits if_splits dest!: stopPolling_ref)

lemma handle_ref:
  "pollingIntervalRef (handle e s) = Some h \<Longrightarrow> pollingIntervalRef s = Some h"
proof (cases e)
  case (Tick h' now)
  assume "pollingIntervalRef (handle e s) = Some h"
  with Tick show ?thesis
    by (auto split: option.splits dest: intervalCallback_ref)
next
  case (ProbeSettled i r now)
  assume "pollingIntervalRef (handle e s) = Some h"
  with ProbeSettled show ?thesis
    by (auto split: option.splits dest: probeSettled_ref)
qed (auto simp: handleFileChange_def reader_onloadend_def reader_onerror_def
      handleQualityChange_def handleDimensionChange_def incrementQuality_def
      decrementQuality_def handleUpload_def handleUpload_gotUrl_def handleUpload_uploaded_def
      handleUpload_catch_def resizeAnother_def handleDownloadClick_def
      handleDownload_settled_def Let_def
      split: option.splits if_splits dest!: stopPolling_ref)

lemma pollingEffect_fresh:
  assumes "timer_ok s" and "pollingIntervalRef (pollingEffect s) = Some h"
  shows "pollingAttemptsRef (pollingEffect s) = 0"
proof -
  have "pollingIntervalRef (stopPolling s) = None"
    using assms(1) by (rule stopPolling_stops)
  with assms(2) show ?thesis
    by (auto simp: pollingEffect_def Let_def split: option.splits if_splits)
qed

lemma step_fresh:
  assumes "timer_inv s" and "pollingIntervalRef (step e s) = Some h"
    and "pollingIntervalRef s \<noteq> Some h"
  shows "pollingAttemptsRef (step e s) = 0"
proof (cases "lastUploadedKey (handle e s) = lastUploadedKey s")
  case True
  then have "step e s = handle e s"
    by (simp add: step_def rerender_same)
  with assms(2,3) handle_ref [of e s h] show ?thesis by simp
next
  case False
  then have st: "step e s = pollingEffect (stopPolling (handle e s))"
    by (simp add: step_def rerender_def)
  have "timer_inv (handle e s)"
    using assms(1) by (rule handle_inv)
  then have "timer_ok (stopPolling (handle e s))"
    by (simp add: timer_inv_def timer_ok_stopPolling)
  from pollingEffect_fresh [OF this] assms(2) show ?thesis
    unfolding st by simp
qed

lemma rerender_stopped:
  assumes "timer_inv t" and "lastUploadedKey t = None" and "timers t = []"
  shows "timers (rerender s t) = []"
proof (cases "lastUploadedKey t = lastUploadedKey s")
  case True
  with assms(3) show ?thesis by (simp add: rerender_same)
next
  case False
  have "timer_ok (stopPolling t)"
    using assms(1) by (simp add: timer_inv_def timer_ok_stopPolling)
  then have "timers (stopPolling (stopPolling t)) = []"
    by (rule stopPolling_stops)
  with False assms(2) show ?thesis
    by (simp add: rerender_def pollingEffect_def)
qed

lemma cancel_FileChange:
  assumes "timer_inv s"
  shows "timers (step (FileChange (Some f)) s) = []"
proof -
  let ?u = "s\<lparr> selectedFile := Some f,
                uploadStatus := js ''Selected: '' @ file_name f,
                resizedImageUrl := None,
                lastUploadedKey := None,
                isLoading := False \<rparr>"
  have ok: "timer_ok ?u"
    by (rule timer_ok_upd [of s]) (use assms in \<open>simp_all add: timer_inv_def\<close>)
  have "timers (handleFileChange (Some f) s) = []"
    using stopPolling_stops(1) [OF ok] by (simp add: handleFileChange_def)
  moreover have "lastUploadedKey (handleFileChange (Some f) s) = None"
    by (simp add: handleFileChange_def)
  moreover have "timer_inv (handleFileChange (Some f) s)"
    using assms by (rule handleFileChange_inv)
  ultimately show ?thesis
    by (simp add: step_def rerender_stopped)
qed

lemma cancel_ResizeAnother:
  assumes "timer_inv s"
  shows "timers (step ResizeAnotherClick s) = []"
proof -
  let ?u = "s\<lparr> resizedImageUrl := None, originalPreviewUrl := None,
            uploadStatus := [], lastUploadedKey := None, selectedFile := None,
            isLoading := False \<rparr>"
  have ok: "timer_ok ?u"
    by (rule timer_ok_upd [of s]) (use assms in \<open>simp_all add: timer_inv_def\<close>)
  have "timers (resizeAnother s) = []"
    using stopPolling_stops(1) [OF ok] by (simp add: resizeAnother_def)
  moreover have "lastUploadedKey (resizeAnother s) = None"
    by (simp add: resizeAnother_def)
  moreover have "timer_inv (resizeAnother s)"
    using assms by (rule resizeAnother_inv)
  ultimately show ?thesis
    by (simp add: step_def rerender_stopped)
qed

lemma timer_inv_no_timer: "timer_inv s \<Longrightarrow> timers s = [] \<Longrightarrow> pollingIntervalRef s = None"
  by (cases "pollingIntervalRef s") (auto simp: timer_inv_def timer_ok_alt)

lemma handleUpload_stops:
  assumes "timer_ok t" and "selectedFile t \<noteq> None"
  shows "timers (step UploadClick t) = []" and "pollingIntervalRef (step UploadClick t) = None"
proof -
  from assms(2) obtain f where f: "selectedFile t = Some f" by auto
  let ?u = "t\<lparr> isLoading := True, resizedImageUrl := None,
                uploadStatus := js ''Getting upload URL...'',
                lastUploadedKey := None \<rparr>"
  have ok: "timer_ok ?u"
    by (rule timer_ok_upd [of t]) (use assms(1) in simp_all)
  have h: "handleUpload t = (stopPolling ?u)\<lparr> requests := requests t @
      [GetUploadUrl (file_name f) (quality t) (width t) (height t)
         (js_or (file_type f) (js ''application/octet-stream''))] \<rparr>"
    using f by (simp add: handleUpload_def Let_def)
  have i: "timer_inv (handleUpload t)"
    unfolding h by (rule timer_inv_upd [OF timer_inv_stopped [OF ok]]) simp_all
  have n: "timers (handleUpload t) = []"
    unfolding h using stopPolling_stops(1) [OF ok] by simp
  have k: "lastUploadedKey (handleUpload t) = None"
    unfolding h by simp
  show 1: "timers (step UploadClick t) = []"
    using i k n by (simp add: step_def rerender_stopped)
  have "timer_inv (rerender t (handleUpload t))"
    using i by (rule rerender_inv) (simp add: k)
  then have "timer_inv (step UploadClick t)"
    by (simp add: step_def)
  then show "pollingIntervalRef (step UploadClick t) = None"
    using 1 by (rule timer_inv_no_timer)
qed

lemma handlers_stop:
  assumes "timer_ok t"
  shows "timers (handleFileChange (Some f) t) = []"
    and "timers (resizeAnother t) = []"
    and "selectedFile t \<noteq> None \<Longrightarrow> timers (handleUpload t) = []"
proof -
  let ?a = "t\<lparr> selectedFile := Some f,
                uploadStatus := js ''Selected: '' @ file_name f,
                resizedImageUrl := None,
                lastUploadedKey := None,
                isLoading := False \<rparr>"
  have "timer_ok ?a"
    by (rule timer_ok_upd [of t]) (use assms in simp_all)
  from stopPolling_stops(1) [OF this] show "timers (handleFileChange (Some f) t) = []"
    by (simp add: handleFileChange_def)
  let ?b = "t\<lparr> resizedImageUrl := None, originalPreviewUrl := None,
            uploadStatus := [], lastUploadedKey := None, selectedFile := None,
            isLoading := False \<rparr>"
  have "timer_ok ?b"
    by (rule timer_ok_upd [of t]) (use assms in simp_all)
  from stopPolling_stops(1) [OF this] show "timers (resizeAnother t) = []"
    by (simp add: resizeAnother_def)
  let ?c = "t\<lparr> isLoading := True, resizedImageUrl := None,
                uploadStatus := js ''Getting upload URL...'',
                lastUploadedKey := None \<rparr>"
  have "timer_ok ?c"
    by (rule timer_ok_upd [of t]) (use assms in simp_all)
  from stopPolling_stops(1) [OF this]
  show "timers (handleUpload t) = []" if "selectedFile t \<noteq> None"
    using that by (auto simp: handleUpload_def Let_def)
qed

lemma timer_inv_reachable: "timer_inv (run evs init)"
  using timer_inv_init by (rule timer_inv_run)

lemma timer_inv_timers:
  assumes "timer_inv s"
  shows "length (timers s) \<le> 1"
    and "timers s \<noteq> [] \<Longrightarrow> \<exists>h. pollingIntervalRef s = Some h \<and> map fst (timers s) = [h]"
proof -
  show "length (timers s) \<le> 1"
  proof (cases "pollingIntervalRef s")
    case None
    with assms show ?thesis by (simp add: timer_inv_def timer_ok_alt)
  next
    case (Some h)
    with assms have "map fst (timers s) = [h]" by (simp add: timer_inv_def timer_ok_alt)
    then have "length (map fst (timers s)) = 1" by simp
    then show ?thesis by simp
  qed
  show "\<exists>h. pollingIntervalRef s = Some h \<and> map fst (timers s) = [h]" if "timers s \<noteq> []"
    using assms that by (cases "pollingIntervalRef s") (simp_all add: timer_inv_def timer_ok_alt)
qed

text \<open>
  Claim C3, as stated. \<^verbatim>\<open>stopPolling\<close> clears the timer and does not abort a probe that
  has been sent. In the run below the first poll has one probe in flight when another
  file is selected, which clears its timer; the second upload then starts a second poll
  with timer 2. The probe of the first poll settles with success after that: it clears
  the timer of the second poll, ends the loading and sets the result URL of the first
  job, while the key of the second job is the current one. Selecting the file has not
  cancelled all of the first poll.
\<close>

theorem stale_probe_counterexample:
  "pollingIntervalRef (run (sample_upload @ [Tick 1 7] @ second_upload) init) = Some 2 \<and>
   timers (run (sample_upload @ [Tick 1 7] @ second_upload) init) = [(2, second_url)] \<and>
   map_of (inflight (run (sample_upload @ [Tick 1 7] @ second_upload) init)) 2 = Some sample_url \<and>
   timers (step (ProbeSettled 2 (Response 200) 20)
            (run (sample_upload @ [Tick 1 7] @ second_upload) init)) = [] \<and>
   lastUploadedKey (step (ProbeSettled 2 (Response 200) 20)
            (run (sample_upload @ [Tick 1 7] @ second_upload) init))
     = Some (js ''q85_w128_h128/b.png'') \<and>
   resizedImageUrl (step (ProbeSettled 2 (Response 200) 20)
            (run (sample_upload @ [Tick 1 7] @ second_upload) init))
     = Some (sample_url @ js ''?t=20'') \<and>
   \<not> isLoading (step (ProbeSettled 2 (Response 200) 20)
            (run (sample_upload @ [Tick 1 7] @ second_upload) init))"
proof -
  have d: "decimal 20 = js ''20''"
    by (simp add: decimal.simps js_def)
  show ?thesis
    unfolding second_poll_state
    by (simp add: step_ProbeSettled probeSettled_def ok_def stopPolling_def clearInterval_def
        init_def d)
       (simp add: js_def)
qed

text \<open>
  Claim C3, amended. In every state that the component can reach, at most one interval
  timer is set, and it is the one whose handle is in \<^verbatim>\<open>pollingIntervalRef\<close>. Selecting a
  file and the button \<^verbatim>\<open>Resize Another Image\<close> clear the timer and the ref. In every
  state whose timers are those of \<^verbatim>\<open>pollingIntervalRef\<close>, reachable or not, each of the
  three handlers clears the timer by its own call of \<^verbatim>\<open>stopPolling\<close>, before the effect
  runs: \<^verbatim>\<open>handleFileChange\<close> with a file, the click handler of the reset button, and
  \<^verbatim>\<open>handleUpload\<close> with a file selected. In the reachable states no file is selected
  while a timer is set, so there \<^verbatim>\<open>handleUpload\<close> finds no timer to clear. Whenever an
  event leaves a handle in
  \<^verbatim>\<open>pollingIntervalRef\<close> that was not there before, its timer is the only one set and
  the attempt counter is 0. The statement is about the timer; the probes that have
  been sent are no part of it.
\<close>

theorem one_poll_timer:
  assumes "s = run evs init"
  shows "length (timers s) \<le> 1
       \<and> (timers s \<noteq> [] \<longrightarrow> (\<exists>h. pollingIntervalRef s = Some h \<and> map fst (timers s) = [h]))
       \<and> timers (step (FileChange (Some f)) s) = []
       \<and> pollingIntervalRef (step (FileChange (Some f)) s) = None
       \<and> timers (step ResizeAnotherClick s) = []
       \<and> pollingIntervalRef (step ResizeAnotherClick s) = None
       \<and> (timer_ok t \<longrightarrow>
            timers (handleFileChange (Some f) t) = [] \<and> timers (resizeAnother t) = [] \<and>
            (selectedFile t \<noteq> None \<longrightarrow>
               timers (handleUpload t) = [] \<and> timers (step UploadClick t) = [] \<and>
               pollingIntervalRef (step UploadClick t) = None))
       \<and> (pollingIntervalRef (step e s) = Some h \<and> pollingIntervalRef s \<noteq> Some h \<longrightarrow>
            pollingAttemptsRef (step e s) = 0 \<and> map fst (timers (step e s)) = [h])"
proof -
  have i: "timer_inv s"
    unfolding assms by (rule timer_inv_reachable)
  have j: "timer_inv (step e' s)" for e'
    using i by (rule timer_inv_step)
  have 1: "pollingIntervalRef (step (FileChange (Some f)) s) = None"
    using j cancel_FileChange [OF i, of f] by (rule timer_inv_no_timer)
  have 2: "pollingIntervalRef (step ResizeAnotherClick s) = None"
    using j cancel_ResizeAnother [OF i] by (rule timer_inv_no_timer)
  have 3: "map fst (timers (step e s)) = [h]" if "pollingIntervalRef (step e s) = Some h"
    using j [of e] that by (simp add: timer_inv_def timer_ok_alt)
  show ?thesis
    using timer_inv_timers [OF i] cancel_FileChange [OF i, of f] cancel_ResizeAnother [OF i]
      handleUpload_stops [of t] handlers_stop(1) [of t f] handlers_stop(2,3) [of t]
      step_fresh [OF i, of e h] 1 2 3
    by blast
qed

theorem one_poll_timer_witness:
  "timers (run sample_upload init) \<noteq> [] \<and>
   timers (step (FileChange (Some second_file)) (run sample_upload init)) = [] \<and>
   timers (step ResizeAnotherClick (run sample_upload init)) = [] \<and>
   timer_ok ((run sample_upload init)\<lparr> selectedFile := Some second_file \<rparr>) \<and>
   timers ((run sample_upload init)\<lparr> selectedFile := Some second_file \<rparr>) \<noteq> [] \<and>
   timers (handleFileChange (Some second_file)
             ((run sample_upload init)\<lparr> selectedFile := Some second_file \<rparr>)) = [] \<and>
   timers (resizeAnother ((run sample_upload init)\<lparr> selectedFile := Some second_file \<rparr>)) = [] \<and>
   timers (handleUpload ((run sample_upload init)\<lparr> selectedFile := Some second_file \<rparr>)) = [] \<and>
   timers (step UploadClick ((run sample_upload init)\<lparr> selectedFile := Some second_file \<rparr>)) = [] \<and>
   pollingIntervalRef (run sample_upload init) = Some 1 \<and>
   pollingAttemptsRef (run sample_upload init) = 0 \<and>
   length (timers (run sample_upload init)) \<le> 1"
proof -
  let ?s = "run sample_upload init"
  let ?t = "?s\<lparr> selectedFile := Some second_file \<rparr>"
  let ?b = "run [FileChange (Some sample_file), UploadClick,
                 UploadUrlReceived sample_file (js ''https://upload.example/put'')] init"
  let ?e = "UploadDone (js ''q85_w128_h128/a.png'')"
  have 0: "timers ?s \<noteq> []"
    unfolding awaiting_state by simp
  have 1: "timer_ok ?t" and 2: "selectedFile ?t \<noteq> None" and 3: "timers ?t \<noteq> []"
    unfolding awaiting_state by (simp_all add: timer_ok_def init_def)
  have s: "?s = step ?e ?b"
    by (simp add: sample_upload_def)
  have 4: "pollingIntervalRef (step ?e ?b) = Some 1"
    unfolding s [symmetric] awaiting_state by simp
  have 5: "pollingIntervalRef ?b \<noteq> Some 1"
    unfolding uploading_state by (simp add: init_def)
  note A = one_poll_timer [OF refl, of sample_upload second_file ?t]
  have "timers (step (FileChange (Some second_file)) ?s) = []"
    using A by blast
  moreover have "timers (step ResizeAnotherClick ?s) = []"
    using A by blast
  moreover have "timers (step UploadClick ?t) = []"
    using A 1 2 by blast
  moreover have "timers (handleFileChange (Some second_file) ?t) = []"
    using A 1 by blast
  moreover have "timers (resizeAnother ?t) = []"
    using A 1 by blast
  moreover have "timers (handleUpload ?t) = []"
    using A 1 2 by blast
  moreover have "length (timers ?s) \<le> 1"
    using A by blast
  moreover
  from one_poll_timer [OF refl, of _ _ _ ?e 1] 4 5
  have "pollingAttemptsRef (step ?e ?b) = 0" by blast
  ultimately show ?thesis
    using 0 1 3 4 unfolding s by blast
qed





subsection \<open>The claims about a poll that finds the artifact\<close>







section \<open>Properties of the parameter handlers\<close>

lemma handleQualityChange_range:
  "\<exists>q. quality (handleQualityChange n s) = Finite q \<and> 1 \<le> q \<and> q \<le> 100"
  by (cases n) (simp_all add: handleQualityChange_def isNaN_def)

lemma handleDimensionChange_lower:
  "width (handleDimensionChange n (js ''width'') s) = PosInfinity \<or>
   (\<exists>w. width (handleDimensionChange n (js ''width'') s) = Finite w \<and> 1 \<le> w)"
  by (cases n) (simp_all add: handleDimensionChange_def isNaN_def)

text \<open>
  Claim C9. The claim says that a dimension whose input parses to zero is replaced by the
  fallback 128 and that every dimension is an integer. In \<^verbatim>\<open>handleDimensionChange\<close> the
  value passes through \<^verbatim>\<open>Math.max(1, _)\<close> before it is compared with zero, so the
  comparison never holds: the input 0 gives the dimension 1, not 128. Nothing rounds
  the value either: the input 2.5 gives the dimension 2.5. Only NaN gives 128.
\<close>

theorem handleDimensionChange_zero:
  "width (handleDimensionChange (Finite 0) (js ''width'') s) = Finite 1 \<and>
   height (handleDimensionChange (Finite 0) (js ''height'') s) = Finite 1 \<and>
   width (handleDimensionChange (Finite (5 / 2)) (js ''width'') s) = Finite (5 / 2) \<and>
   width (handleDimensionChange NaN (js ''width'') s) = Finite 128"
  by (simp add: handleDimensionChange_def isNaN_def js_def)

end
